theory Spec2Isabelle
  imports Complex_Main "HOL-Library.Word"
begin

section \<open>Errors\<close>

text \<open>
  The error codes thrown as \<open>BSplineException\<close> by the generator and the integration
  routines, together with the other ways in which a call can fail to return: a failed
  \<open>assert\<close>, \<open>std::vector::at\<close> out of range, \<open>std::optional::value\<close> on an
  empty optional, and a template instance that a static assertion rejects.
\<close>

datatype error =
    DIFFERING_GRIDS
  | INCONSISTENT_DATA
  | UNDETERMINED
  | ASSERTION_FAILED
  | OUT_OF_RANGE
  | BAD_OPTIONAL_ACCESS
  | STATIC_ASSERTION_FAILED

section \<open>The vector-based spline class \<open>myspline<T, order>\<close>\<close>

text \<open>
  The scalar type \<open>T\<close> is modelled by an arbitrary linearly ordered field. The template
  parameter \<open>order\<close> is a field of the record; every coefficient array
  \<open>std::array<T, order + 1>\<close> is a list.
\<close>

record 'a myspline =
  order :: nat
  intervals :: "'a list"
  coefficients :: "'a list list"

text \<open>The default constructor: no break points, no coefficients.\<close>

definition myspline_default :: "nat \<Rightarrow> 'a myspline" where
  "myspline_default ord = \<lparr> order = ord, intervals = [], coefficients = [] \<rparr>"

definition make_array :: "nat \<Rightarrow> 'a \<Rightarrow> 'a list" where
  "make_array n val = map (\<lambda>i. val) [0..<n]"

text \<open>\<open>add<T, sizea, sizeb>\<close>: both arrays are read below their template size only.\<close>

definition add :: "nat \<Rightarrow> nat \<Rightarrow> 'a::linordered_field list \<Rightarrow> 'a list \<Rightarrow> 'a list" where
  "add sizea sizeb a b =
     map (\<lambda>i. let r0 = 0;
                  r1 = (if i < sizea then r0 + a ! i else r0);
                  r2 = (if i < sizeb then r1 + b ! i else r1)
              in r2)
         [0..<max sizea sizeb]"

text \<open>\<open>changearraysize<T, sizein, sizeout>\<close>, with \<open>sizeout \<ge> sizein\<close> by the static assertion.\<close>

definition changearraysize :: "nat \<Rightarrow> nat \<Rightarrow> 'a::linordered_field list \<Rightarrow> 'a list" where
  "changearraysize sizein sizeout inp =
     (if sizeout = sizein then inp
      else map (\<lambda>i. if i < sizein then inp ! i else 0) [0..<sizeout])"

text \<open>\<open>std::sort\<close> followed by \<open>std::unique\<close>, which drops adjacent duplicates.\<close>

definition makeuniquesorted :: "'a::linorder list \<Rightarrow> 'a list" where
  "makeuniquesorted list = remdups_adj (sort list)"

text \<open>\<open>std::distance(v.begin(), std::find(v.begin(), v.end(), x))\<close>: the index of the first
  occurrence, the size of the vector when there is none.\<close>

fun find_pos :: "'a list \<Rightarrow> 'a \<Rightarrow> nat" where
  "find_pos [] x = 0"
| "find_pos (y # ys) x = (if y = x then 0 else Suc (find_pos ys x))"

subsection \<open>Sanity checks and construction\<close>

definition steadilyIncreasingIntervals :: "'a::linorder list \<Rightarrow> bool" where
  "steadilyIncreasingIntervals ivs =
     list_all (\<lambda>i. \<not> (ivs ! (i - 1) \<ge> ivs ! i)) [1..<length ivs]"

text \<open>The constructor and \<open>setData\<close> run the same two assertions, in this order.\<close>

definition setData :: "nat \<Rightarrow> 'a::linorder list \<Rightarrow> 'a list list \<Rightarrow> error + 'a myspline" where
  "setData ord ivs cs =
     (if \<not> ((length ivs = 0 \<and> length cs = 0) \<or> (length ivs \<ge> 2 \<and> length cs + 1 = length ivs))
      then Inl ASSERTION_FAILED
      else if \<not> steadilyIncreasingIntervals ivs then Inl ASSERTION_FAILED
      else Inr \<lparr> order = ord, intervals = ivs, coefficients = cs \<rparr>)"

definition myspline_ctor :: "nat \<Rightarrow> 'a::linorder list \<Rightarrow> 'a list list \<Rightarrow> error + 'a myspline" where
  "myspline_ctor ord ivs cs = setData ord ivs cs"

subsection \<open>Evaluation\<close>

text \<open>
  The binary search of \<open>findInterval\<close>. The indices are C \<open>int\<close>s; they are modelled as
  unbounded integers, which agrees with the code as long as the number of break points
  stays below \<open>2^30\<close>, so that \<open>endi + starti\<close> does not overflow.
\<close>

function findInterval_loop :: "'a::linorder list \<Rightarrow> 'a \<Rightarrow> int \<Rightarrow> int \<Rightarrow> int" where
  "findInterval_loop ivs x starti endi =
     (if endi - starti > 1 then
        (let middlei = (endi + starti) div 2 in
         if x > ivs ! nat middlei then findInterval_loop ivs x middlei endi
         else findInterval_loop ivs x starti middlei)
      else starti)"
  by pat_completeness auto
termination
  by (relation "measure (\<lambda>(ivs, x, starti, endi). nat (endi - starti))") auto

declare findInterval_loop.simps [simp del]

definition findInterval :: "'a::linorder myspline \<Rightarrow> 'a \<Rightarrow> int" where
  "findInterval s x =
     (if length (intervals s) < 2 \<or> x > last (intervals s) \<or> x < hd (intervals s) then - 1
      else findInterval_loop (intervals s) x 0 (int (length (intervals s)) - 1))"

text \<open>\<open>operator()\<close>: the value of the spline at \<open>x\<close>, by a power sum around the midpoint.\<close>

definition power_sum :: "'a::linordered_field list \<Rightarrow> 'a \<Rightarrow> 'a" where
  "power_sum coeffs dx =
     fst (foldl (\<lambda>(result, xpot) c. (result + xpot * c, xpot * dx)) (0, 1) coeffs)"

definition eval :: "'a::linordered_field myspline \<Rightarrow> 'a \<Rightarrow> 'a" where
  "eval s x =
     (let index = findInterval s x in
      if index < 0 then 0
      else
        (let coeffs = coefficients s ! nat index;
             dx = x - (intervals s ! (nat index + 1) + intervals s ! nat index) / 2
         in power_sum coeffs dx))"

subsection \<open>Scalar multiplication and division\<close>

text \<open>\<open>operator*(const T &d)\<close>: a copy with every coefficient multiplied by \<open>d\<close>.\<close>

definition times_scalar :: "'a::linordered_field myspline \<Rightarrow> 'a \<Rightarrow> 'a myspline" where
  "times_scalar this d = this \<lparr> coefficients := map (map (\<lambda>c. c * d)) (coefficients this) \<rparr>"

text \<open>\<open>operator/(const T &d)\<close>.\<close>

definition divide_scalar :: "'a::linordered_field myspline \<Rightarrow> 'a \<Rightarrow> 'a myspline" where
  "divide_scalar this d = times_scalar this (1 / d)"

text \<open>\<open>operator*=(const T &d)\<close>: the object after the update.\<close>

definition times_assign_scalar :: "'a::linordered_field myspline \<Rightarrow> 'a \<Rightarrow> 'a myspline" where
  "times_assign_scalar this d =
     this \<lparr> coefficients := map (map (\<lambda>c. c * d)) (coefficients this) \<rparr>"

text \<open>\<open>operator/=(const T &d)\<close>.\<close>

definition divide_assign_scalar :: "'a::linordered_field myspline \<Rightarrow> 'a \<Rightarrow> 'a myspline" where
  "divide_assign_scalar this d = times_assign_scalar this (1 / d)"

text \<open>The free function \<open>operator*(const T &d, const myspline &b)\<close>.\<close>

definition scalar_times :: "'a::linordered_field \<Rightarrow> 'a myspline \<Rightarrow> 'a myspline" where
  "scalar_times d b = times_scalar b d"

subsection \<open>Overlap and zero tests\<close>

definition checkOverlap :: "'a::linorder myspline \<Rightarrow> 'a myspline \<Rightarrow> bool" where
  "checkOverlap this m2 =
     (if intervals this = [] \<or> intervals m2 = [] then False
      else
        (let isNotOverlapping =
               (last (intervals m2) \<le> hd (intervals this) \<or>
                hd (intervals m2) \<ge> last (intervals this))
         in \<not> isNotOverlapping))"

definition isZero :: "'a::linordered_field myspline \<Rightarrow> bool" where
  "isZero s =
     (if length (intervals s) = 0 then True
      else list_all (\<lambda>cs. list_all (\<lambda>c. \<not> c \<noteq> 0) cs) (coefficients s))"

text \<open>
  \<open>internal::findOverlappingIntervals\<close>: the three output parameters
  \<open>(startindex1, startindex2, nintervals)\<close>, or the failed assertion.
\<close>

definition findOverlappingIntervals ::
  "'a::linorder myspline \<Rightarrow> 'a myspline \<Rightarrow> error + (nat \<times> nat \<times> nat)" where
  "findOverlappingIntervals m1 m2 =
     (if \<not> checkOverlap m1 m2 then Inr (0, 0, 0)
      else if hd (intervals m2) \<le> hd (intervals m1) then
        (let startindex1 = 0;
             startindex2 = find_pos (intervals m2) (hd (intervals m1))
         in if \<not> length (intervals m2) \<ge> startindex2 + 2 then Inl ASSERTION_FAILED
            else Inr (startindex1, startindex2,
                      min (length (intervals m2) - startindex2 - 1)
                          (length (intervals m1) - startindex1 - 1)))
      else
        (let startindex2 = 0;
             startindex1 = find_pos (intervals m1) (hd (intervals m2))
         in if \<not> length (intervals m1) \<ge> startindex1 + 2 then Inl ASSERTION_FAILED
            else Inr (startindex1, startindex2,
                      min (length (intervals m2) - startindex2 - 1)
                          (length (intervals m1) - startindex1 - 1))))"

subsection \<open>Assignment from a spline of lower or equal order\<close>

text \<open>The templated \<open>operator=\<close> of a spline of order \<open>ord\<close>, from \<open>a\<close> of order at most \<open>ord\<close>.\<close>

definition assign_spline :: "nat \<Rightarrow> 'a::linordered_field myspline \<Rightarrow> error + 'a myspline" where
  "assign_spline ord a =
     (let ncoefficients =
            map (\<lambda>i. let coeffsi = coefficients a ! i
                      in foldl (\<lambda>ncoeffsi j. ncoeffsi[j := coeffsi ! j])
                           (make_array (ord + 1) 0) [0..<order a + 1])
                [0..<length (coefficients a)]
      in setData ord (intervals a) ncoefficients)"

subsection \<open>Product of two splines\<close>

text \<open>The two inner loops of \<open>operator*\<close>: \<open>coeffsi[j + k] += thiscoeffs[j] * acoeffs[k]\<close>.\<close>

definition multiply_arrays ::
  "nat \<Rightarrow> nat \<Rightarrow> 'a::linordered_field list \<Rightarrow> 'a list \<Rightarrow> 'a list" where
  "multiply_arrays ord ordera thiscoeffs acoeffs =
     foldl (\<lambda>coeffsi j.
              foldl (\<lambda>coeffsi k.
                       coeffsi[j + k := coeffsi ! (j + k) + thiscoeffs ! j * acoeffs ! k])
                    coeffsi [0..<ordera + 1])
           (make_array (ord + ordera + 1) 0) [0..<ord + 1]"

definition times_spline ::
  "'a::linordered_field myspline \<Rightarrow> 'a myspline \<Rightarrow> error + 'a myspline" where
  "times_spline this a =
     (let NEW_ORDER = order this + order a in
      case findOverlappingIntervals this a of
        Inl e \<Rightarrow> Inl e
      | Inr (startindex1, startindex2, nintervals) \<Rightarrow>
          if nintervals = 0 then Inr (myspline_default NEW_ORDER)
          else
            (let new_coefficients =
                   map (\<lambda>i. multiply_arrays (order this) (order a)
                               (coefficients this ! (i + startindex1))
                               (coefficients a ! (i + startindex2)))
                       [0..<nintervals];
                 new_intervals =
                   intervals this ! startindex1 #
                   map (\<lambda>i. intervals this ! (startindex1 + i + 1)) [0..<nintervals]
             in myspline_ctor NEW_ORDER new_intervals new_coefficients))"

subsection \<open>Sum and difference of two splines\<close>

text \<open>The body of the loop of \<open>operator+\<close>, for the break point \<open>x = nintervals[i]\<close>.\<close>

definition plus_coefficients ::
  "'a::linordered_field myspline \<Rightarrow> 'a myspline \<Rightarrow> 'a \<Rightarrow> 'a list" where
  "plus_coefficients this a x =
     (let NEW_ARRAY_SIZE = max (order this) (order a) + 1;
          posthis = find_pos (intervals this) x;
          posa = find_pos (intervals a) x;
          thisexists = (posthis < length (coefficients this));
          aexists = (posa < length (coefficients a))
      in if thisexists \<and> \<not> aexists then
           (if NEW_ARRAY_SIZE = order this + 1 then coefficients this ! posthis
            else changearraysize (order this + 1) NEW_ARRAY_SIZE (coefficients this ! posthis))
         else if aexists \<and> \<not> thisexists then
           (if NEW_ARRAY_SIZE = order a + 1 then coefficients a ! posa
            else changearraysize (order a + 1) NEW_ARRAY_SIZE (coefficients a ! posa))
         else if thisexists \<and> aexists then
           add (order a + 1) (order this + 1) (coefficients a ! posa) (coefficients this ! posthis)
         else make_array NEW_ARRAY_SIZE 0)"

definition plus_spline ::
  "'a::linordered_field myspline \<Rightarrow> 'a myspline \<Rightarrow> error + 'a myspline" where
  "plus_spline this a =
     (let NEW_ORDER = max (order this) (order a);
          nintervals = makeuniquesorted (intervals a @ intervals this);
          ncoefficients =
            map (\<lambda>i. plus_coefficients this a (nintervals ! i)) [0..<length nintervals - 1]
      in myspline_ctor NEW_ORDER nintervals ncoefficients)"

text \<open>The body of the loop of \<open>operator+=\<close>; the order of \<open>a\<close> is at most the one of \<open>this\<close>.\<close>

definition plus_assign_coefficients ::
  "'a::linordered_field myspline \<Rightarrow> 'a myspline \<Rightarrow> 'a \<Rightarrow> 'a list" where
  "plus_assign_coefficients this a x =
     (let ARRAY_SIZE = order this + 1;
          posthis = find_pos (intervals this) x;
          posa = find_pos (intervals a) x;
          thisexists = (posthis < length (coefficients this));
          aexists = (posa < length (coefficients a))
      in if thisexists \<and> \<not> aexists then coefficients this ! posthis
         else if aexists \<and> \<not> thisexists then
           changearraysize (order a + 1) ARRAY_SIZE (coefficients a ! posa)
         else if thisexists \<and> aexists then
           add (order a + 1) ARRAY_SIZE (coefficients a ! posa) (coefficients this ! posthis)
         else make_array ARRAY_SIZE 0)"

definition plus_assign_spline ::
  "'a::linordered_field myspline \<Rightarrow> 'a myspline \<Rightarrow> error + 'a myspline" where
  "plus_assign_spline this a =
     (let nintervals = makeuniquesorted (intervals a @ intervals this);
          ncoefficients =
            map (\<lambda>i. plus_assign_coefficients this a (nintervals ! i))
                [0..<length nintervals - 1]
      in setData (order this) nintervals ncoefficients)"

definition minus_assign_spline ::
  "'a::linordered_field myspline \<Rightarrow> 'a myspline \<Rightarrow> error + 'a myspline" where
  "minus_assign_spline this a = plus_assign_spline this (scalar_times (- 1) a)"

definition minus_spline ::
  "'a::linordered_field myspline \<Rightarrow> 'a myspline \<Rightarrow> error + 'a myspline" where
  "minus_spline this a = plus_spline this (scalar_times (- 1) a)"

subsection \<open>Transformations\<close>

text \<open>\<open>restrictSupport\<close>: the loop over the intervals, with the two vectors it fills.\<close>

definition restrictSupport_step ::
  "'a::linorder myspline \<Rightarrow> 'a \<Rightarrow> 'a \<Rightarrow> 'a list \<times> 'a list list \<Rightarrow> nat \<Rightarrow> 'a list \<times> 'a list list"
  where
  "restrictSupport_step s x0 x1 acc i =
     (case acc of (nintervals, ncoeffs) \<Rightarrow>
        if intervals s ! i \<ge> x0 \<and> intervals s ! (i + 1) \<le> x1 then
          (let nintervals1 = nintervals @ [intervals s ! i];
               nintervals2 =
                 (if i + 2 \<ge> length (intervals s) \<or> intervals s ! (i + 2) > x1
                  then nintervals1 @ [intervals s ! (i + 1)] else nintervals1)
           in (nintervals2, ncoeffs @ [coefficients s ! i]))
        else (nintervals, ncoeffs))"

definition restrictSupport :: "'a::linorder myspline \<Rightarrow> 'a \<Rightarrow> 'a \<Rightarrow> error + 'a myspline" where
  "restrictSupport s x0 x1 =
     (case foldl (restrictSupport_step s x0 x1) ([], []) [0..<length (intervals s) - 1] of
        (nintervals, ncoeffs) \<Rightarrow> myspline_ctor (order s) nintervals ncoeffs)"

text \<open>\<open>timesx\<close>: the new coefficient array of one interval with midpoint \<open>xm\<close>.\<close>

definition timesx_array :: "nat \<Rightarrow> 'a::linordered_field \<Rightarrow> 'a list \<Rightarrow> 'a list" where
  "timesx_array ARRAY_SIZE xm coeffs_old =
     map (\<lambda>j. let c0 = 0;
                  c1 = (if j > 0 then c0 + coeffs_old ! (j - 1) else c0);
                  c2 = (if j < ARRAY_SIZE then c1 + xm * coeffs_old ! j else c1)
              in c2)
         [0..<ARRAY_SIZE + 1]"

definition timesx :: "'a::linordered_field myspline \<Rightarrow> error + 'a myspline" where
  "timesx s =
     (let ARRAY_SIZE = order s + 1;
          newcoeffs =
            foldl (\<lambda>newcoeffs i.
                     let xm = (intervals s ! (i + 1) + intervals s ! i) / 2
                     in newcoeffs[i := timesx_array ARRAY_SIZE xm (coefficients s ! i)])
                  (map (\<lambda>i. make_array (ARRAY_SIZE + 1) 0) [0..<length (coefficients s)])
                  [0..<length (intervals s) - 1]
      in myspline_ctor (order s + 1) (intervals s) newcoeffs)"

text \<open>\<open>invert\<close>: the reflected spline \<open>f(-x)\<close>.\<close>

definition invert :: "'a::linordered_field myspline \<Rightarrow> error + 'a myspline" where
  "invert s =
     (if isZero s then Inr s
      else if \<not> length (intervals s) \<ge> 1 then Inl ASSERTION_FAILED
      else
        (let ARRAY_SIZE = order s + 1;
             nintervals = map (\<lambda>i. - (intervals s ! i)) (rev [0..<length (intervals s)]);
             ncoeffs =
               foldl (\<lambda>ncoeffs i.
                        ncoeffs[length (coefficients s) - 1 - i :=
                          map (\<lambda>j. (if j mod 2 = 0 then 1 else - 1) * (coefficients s ! i ! j))
                              [0..<ARRAY_SIZE]])
                     (map (\<lambda>i. make_array ARRAY_SIZE 0) [0..<length (coefficients s)])
                     (rev [0..<length (coefficients s)])
         in myspline_ctor (order s) nintervals ncoeffs))"

subsection \<open>Derivatives\<close>

definition orderdx :: "nat \<Rightarrow> nat \<Rightarrow> nat" where
  "orderdx orderin n = (if n > orderin then 0 else orderin - n)"

text \<open>
  The variable \<open>faculty\<close> of \<open>dx\<close> is a \<open>size_t\<close>, 64 bits wide here: the product
  \<open>(i - 0) * (i - 1) * ... * (i - (n - 1))\<close> wraps around.
\<close>

definition faculty :: "nat \<Rightarrow> nat \<Rightarrow> 64 word" where
  "faculty i n = foldl (\<lambda>f j. f * word_of_nat (i - j)) 1 [0..<n]"

definition dx_array :: "nat \<Rightarrow> nat \<Rightarrow> 'a::linordered_field list \<Rightarrow> 'a list" where
  "dx_array ord n c =
     (let nc = make_array (orderdx ord n + 1) 0 in
      if ord + 1 > n then
        foldl (\<lambda>nc i. nc[i - n := of_nat (unat (faculty i n)) * c ! i]) nc [n..<ord + 1]
      else nc)"

definition dx :: "nat \<Rightarrow> 'a::linordered_field myspline \<Rightarrow> error + 'a myspline" where
  "dx n s =
     (if n > order s then Inr (myspline_default 0)
      else
        (let NEW_ORDER = orderdx (order s) n;
             ncoeffs = map (\<lambda>ii. dx_array (order s) n (coefficients s ! ii))
                           [0..<length (coefficients s)]
         in myspline_ctor NEW_ORDER (intervals s) ncoeffs))"

subsection \<open>Conversion of the scalar type\<close>

text \<open>\<open>convert<TO, TI, order>\<close>; the parameter \<open>cast\<close> stands for \<open>static_cast<TO>\<close>.\<close>

definition convert ::
  "('a \<Rightarrow> 'b::linorder) \<Rightarrow> 'a myspline \<Rightarrow> error + 'b myspline" where
  "convert cast si =
     (let intervO = map cast (intervals si);
          coeffsO = map (\<lambda>i. map (\<lambda>j. cast (coefficients si ! i ! j)) [0..<order si + 1])
                        [0..<length (coefficients si)]
      in myspline_ctor (order si) intervO coeffsO)"

subsection \<open>The data invariant\<close>

text \<open>What the two assertions of the constructor and of \<open>setData\<close> check.\<close>

definition data_invariant :: "'a::linorder myspline \<Rightarrow> bool" where
  "data_invariant s =
     (((length (intervals s) = 0 \<and> length (coefficients s) = 0) \<or>
       (length (intervals s) \<ge> 2 \<and> length (coefficients s) + 1 = length (intervals s))) \<and>
      steadilyIncreasingIntervals (intervals s))"

text \<open>What the type \<open>std::array<T, order + 1>\<close> of the coefficients guarantees.\<close>

definition array_sizes :: "'a myspline \<Rightarrow> bool" where
  "array_sizes s = list_all (\<lambda>c. length c = order s + 1) (coefficients s)"

text \<open>
  The state of the loop of \<open>restrictSupport\<close> after the intervals below \<open>k\<close>: nothing
  has been kept yet; or interval \<open>k - 1\<close> was kept without its right break point,
  because interval \<open>k\<close> is going to be kept as well; or the kept range is complete, and
  no later interval fits below \<open>x1\<close>.
\<close>

definition restrictSupport_state ::
  "'a::linorder myspline \<Rightarrow> 'a \<Rightarrow> 'a \<Rightarrow> nat \<Rightarrow> 'a list \<times> 'a list list \<Rightarrow> bool" where
  "restrictSupport_state s x0 x1 k acc =
     (case acc of (ni, nc) \<Rightarrow>
        (ni = [] \<and> nc = []) \<or>
        (1 \<le> k \<and> length ni = length nc \<and> nc \<noteq> [] \<and> sorted_wrt (<) ni \<and>
         last ni = intervals s ! (k - 1) \<and> x0 \<le> intervals s ! (k - 1) \<and>
         k + 1 < length (intervals s) \<and> intervals s ! (k + 1) \<le> x1) \<or>
        (length ni = length nc + 1 \<and> nc \<noteq> [] \<and> sorted_wrt (<) ni \<and>
         (length (intervals s) \<le> k + 1 \<or> x1 < intervals s ! (k + 1))))"

section \<open>Grids and supports\<close>

text \<open>
  A \<open>grid<T>\<close> object holds the number of its elements and a shared pointer to a
  constant array. The pointer is modelled by the address it holds together with the
  contents of the array at that address. Two grid objects that hold the same address
  see the same array.
\<close>

record 'a grid =
  grid_size :: nat
  grid_data_ptr :: nat
  grid_data :: "'a list"

text \<open>The elements of a grid: the first \<open>_size\<close> cells of its array.\<close>

definition grid_elements :: "'a grid \<Rightarrow> 'a list" where
  "grid_elements g = take (grid_size g) (grid_data g)"

text \<open>\<open>grid::operator==\<close>: the identity shortcut, then the sizes, then the elements.\<close>

definition grid_eq :: "'a grid \<Rightarrow> 'a grid \<Rightarrow> bool" where
  "grid_eq this g =
     (if grid_data_ptr this = grid_data_ptr g \<and> grid_size this = grid_size g then True
      else if grid_size this \<noteq> grid_size g then False
      else list_all (\<lambda>i. \<not> (grid_data this ! i \<noteq> grid_data g ! i)) [0..<grid_size this])"

record 'a support =
  support_grid :: "'a grid"
  startIndex :: nat
  endIndex :: nat

text \<open>The three-argument constructor with its assertion.\<close>

definition support_ctor :: "'a grid \<Rightarrow> nat \<Rightarrow> nat \<Rightarrow> error + 'a support" where
  "support_ctor g startI endI =
     (if \<not> (endI \<ge> startI \<and> endI \<le> grid_size g) then Inl ASSERTION_FAILED
      else Inr \<lparr> support_grid = g, startIndex = startI, endIndex = endI \<rparr>)"

text \<open>The constructor of an empty support on a grid (\<open>Construction::EMPTY\<close>).\<close>

definition support_empty_on :: "'a grid \<Rightarrow> 'a support" where
  "support_empty_on g = \<lparr> support_grid = g, startIndex = 0, endIndex = 0 \<rparr>"

text \<open>\<open>size()\<close>; the constructor's assertion keeps \<open>_startIndex \<le> _endIndex\<close>.\<close>

definition support_size :: "'a support \<Rightarrow> nat" where
  "support_size s = endIndex s - startIndex s"

definition support_is_empty :: "'a support \<Rightarrow> bool" where
  "support_is_empty s = (startIndex s = endIndex s)"

definition containsIntervals :: "'a support \<Rightarrow> bool" where
  "containsIntervals s = (support_size s > 1)"

definition relativeFromAbsolute :: "'a support \<Rightarrow> nat \<Rightarrow> nat option" where
  "relativeFromAbsolute s index =
     (if index \<ge> startIndex s \<and> index < endIndex s then Some (index - startIndex s)
      else None)"

definition absoluteFromRelative :: "'a support \<Rightarrow> nat \<Rightarrow> error + nat" where
  "absoluteFromRelative s index =
     (if \<not> index < support_size s then Inl ASSERTION_FAILED else Inr (index + startIndex s))"

definition numberOfIntervals :: "'a support \<Rightarrow> nat" where
  "numberOfIntervals s = (let si = support_size s in if si = 0 then 0 else si - 1)"

text \<open>\<open>operator[]\<close> of a support: no bounds check.\<close>

definition support_nth :: "'a support \<Rightarrow> nat \<Rightarrow> 'a" where
  "support_nth s index = grid_data (support_grid s) ! (startIndex s + index)"

definition hasSameGrid :: "'a support \<Rightarrow> 'a support \<Rightarrow> bool" where
  "hasSameGrid this s = grid_eq (support_grid this) (support_grid s)"

text \<open>\<open>support::operator==\<close>.\<close>

definition support_eq :: "'a support \<Rightarrow> 'a support \<Rightarrow> bool" where
  "support_eq this s =
     (hasSameGrid this s \<and>
      ((startIndex this = startIndex s \<and> endIndex this = endIndex s) \<or>
       (support_is_empty this \<and> support_is_empty s)))"

text \<open>
  In the header \<open>spline-internal.h\<close> a grid is a shared pointer to a constant vector, and
  \<open>hasSameGrid\<close> compares the pointers, then the sizes of the vectors, then their
  elements. The vector is \<open>grid_data\<close> here and its size is the length of that list.
\<close>

definition hasSameGrid_vector :: "'a support \<Rightarrow> 'a support \<Rightarrow> bool" where
  "hasSameGrid_vector this s =
     (if grid_data_ptr (support_grid this) = grid_data_ptr (support_grid s) then True
      else if length (grid_data (support_grid this)) \<noteq> length (grid_data (support_grid s))
        then False
      else list_all
             (\<lambda>i. \<not> (grid_data (support_grid this) ! i \<noteq> grid_data (support_grid s) ! i))
             [0..<length (grid_data (support_grid this))])"

definition support_eq_vector :: "'a support \<Rightarrow> 'a support \<Rightarrow> bool" where
  "support_eq_vector this s =
     (hasSameGrid_vector this s \<and>
      ((startIndex this = startIndex s \<and> endIndex this = endIndex s) \<or>
       (support_is_empty this \<and> support_is_empty s)))"

text \<open>\<open>calcUnion\<close> and \<open>calcIntersection\<close>, each behind its assertion.\<close>

definition calcUnion :: "'a support \<Rightarrow> 'a support \<Rightarrow> error + 'a support" where
  "calcUnion this s =
     (if \<not> hasSameGrid this s then Inl ASSERTION_FAILED
      else
        (let thisEmpty = support_is_empty this; sEmpty = support_is_empty s in
         if thisEmpty \<and> sEmpty then Inr (support_empty_on (support_grid this))
         else if thisEmpty \<and> \<not> sEmpty then Inr s
         else if \<not> thisEmpty \<and> sEmpty then Inr this
         else
           (let newStartIndex = min (startIndex this) (startIndex s);
                newEndIndex = max (endIndex this) (endIndex s)
            in support_ctor (support_grid this) newStartIndex newEndIndex)))"

definition calcIntersection :: "'a support \<Rightarrow> 'a support \<Rightarrow> error + 'a support" where
  "calcIntersection this s =
     (if \<not> hasSameGrid this s then Inl ASSERTION_FAILED
      else
        (let newStartIndex = max (startIndex this) (startIndex s);
             newEndIndex = min (endIndex this) (endIndex s)
         in if newStartIndex \<ge> newEndIndex then Inr (support_empty_on (support_grid this))
            else support_ctor (support_grid this) newStartIndex newEndIndex))"

section \<open>Splines over a support and their analytical integration\<close>

text \<open>
  The splines of the integration routines consist of a support and of one coefficient
  array per interval; the routines read them through \<open>getSupport\<close> and
  \<open>getCoefficients\<close> only. The support is the class modelled above, which declares
  every method the routines call.
\<close>

record 'a Spline =
  getOrder :: nat
  getSupport :: "'a support"
  getCoefficients :: "'a list list"

text \<open>
  \<open>integrateIntervalAnalytically\<close>; the function object \<open>f\<close> receives the two indices,
  the two coefficients, half the width of the interval and its midpoint.
\<close>

definition integrateIntervalAnalytically ::
  "(nat \<Rightarrow> nat \<Rightarrow> 'a \<Rightarrow> 'a \<Rightarrow> 'a \<Rightarrow> 'a \<Rightarrow> 'a) \<Rightarrow> nat \<Rightarrow> nat \<Rightarrow>
   'a::linordered_field list \<Rightarrow> 'a list \<Rightarrow> 'a \<Rightarrow> 'a \<Rightarrow> 'a" where
  "integrateIntervalAnalytically f sizea sizeb coeffsa coeffsb x0 x1 =
     (let dxhalf = (x1 - x0) / 2;
          xm = (x1 + x0) / 2
      in foldl (\<lambda>result i.
                  foldl (\<lambda>result j. result + f i j (coeffsa ! i) (coeffsb ! j) dxhalf xm)
                        result [0..<sizeb])
               0 [0..<sizea])"

text \<open>\<open>std::optional::value\<close>.\<close>

definition optional_value :: "'b option \<Rightarrow> error + 'b" where
  "optional_value v = (case v of None \<Rightarrow> Inl BAD_OPTIONAL_ACCESS | Some x \<Rightarrow> Inr x)"

text \<open>One round of the loop of \<open>helperAnalyticIntegration\<close>, from the result so far.\<close>

definition helperAnalyticIntegration_step ::
  "(nat \<Rightarrow> nat \<Rightarrow> 'a \<Rightarrow> 'a \<Rightarrow> 'a \<Rightarrow> 'a \<Rightarrow> 'a) \<Rightarrow> 'a::linordered_field Spline \<Rightarrow> 'a Spline \<Rightarrow>
   'a support \<Rightarrow> error + 'a \<Rightarrow> nat \<Rightarrow> error + 'a" where
  "helperAnalyticIntegration_step f m1 m2 integrandSupport acc interv =
     (case acc of
        Inl e \<Rightarrow> Inl e
      | Inr result \<Rightarrow>
          (case absoluteFromRelative integrandSupport interv of
             Inl e \<Rightarrow> Inl e
           | Inr absIndex \<Rightarrow>
               (case optional_value (relativeFromAbsolute (getSupport m1) absIndex) of
                  Inl e \<Rightarrow> Inl e
                | Inr m1Index \<Rightarrow>
                    (case optional_value (relativeFromAbsolute (getSupport m2) absIndex) of
                       Inl e \<Rightarrow> Inl e
                     | Inr m2Index \<Rightarrow>
                         Inr (result +
                              integrateIntervalAnalytically f (getOrder m1 + 1) (getOrder m2 + 1)
                                (getCoefficients m1 ! m1Index) (getCoefficients m2 ! m2Index)
                                (support_nth (getSupport m1) m1Index)
                                (support_nth (getSupport m1) (m1Index + 1)))))))"

definition helperAnalyticIntegration ::
  "(nat \<Rightarrow> nat \<Rightarrow> 'a \<Rightarrow> 'a \<Rightarrow> 'a \<Rightarrow> 'a \<Rightarrow> 'a) \<Rightarrow> 'a::linordered_field Spline \<Rightarrow> 'a Spline \<Rightarrow>
   error + 'a" where
  "helperAnalyticIntegration f m1 m2 =
     (if \<not> hasSameGrid (getSupport m1) (getSupport m2) then Inl DIFFERING_GRIDS
      else
        (case calcIntersection (getSupport m1) (getSupport m2) of
           Inl e \<Rightarrow> Inl e
         | Inr integrandSupport \<Rightarrow>
             (let nintervals = numberOfIntervals integrandSupport in
              if nintervals = 0 then Inr 0
              else foldl (helperAnalyticIntegration_step f m1 m2 integrandSupport)
                         (Inr 0) [0..<nintervals])))"

section \<open>The generator of B-splines\<close>

text \<open>Sequencing of calls that can throw: the first error ends the computation.\<close>

definition bind_result :: "error + 'b \<Rightarrow> ('b \<Rightarrow> error + 'c) \<Rightarrow> error + 'c" where
  "bind_result m f = (case m of Inl e \<Rightarrow> Inl e | Inr x \<Rightarrow> f x)"

text \<open>\<open>std::vector::at\<close>.\<close>

definition vector_at :: "'a list \<Rightarrow> nat \<Rightarrow> error + 'a" where
  "vector_at v i = (if i < length v then Inr (v ! i) else Inl OUT_OF_RANGE)"

text \<open>
  The generator holds the grid and the knots. \<open>generateGrid\<close> is \<open>std::unique\<close> on the
  knots, without sorting them; the second constructor compares the grid it is given
  with the generated one.
\<close>

record 'a BSplineGenerator =
  generator_grid :: "'a list"
  generator_knots :: "'a list"

definition generateGrid :: "'a list \<Rightarrow> 'a list" where
  "generateGrid knots = remdups_adj knots"

definition BSplineGenerator_from_knots :: "'a list \<Rightarrow> 'a BSplineGenerator" where
  "BSplineGenerator_from_knots knots =
     \<lparr> generator_grid = generateGrid knots, generator_knots = knots \<rparr>"

definition BSplineGenerator_from_knots_and_grid ::
  "'a list \<Rightarrow> 'a list \<Rightarrow> error + 'a BSplineGenerator" where
  "BSplineGenerator_from_knots_and_grid knots grid =
     (let secondGrid = generateGrid knots in
      if grid \<noteq> secondGrid then Inl INCONSISTENT_DATA
      else Inr \<lparr> generator_grid = grid, generator_knots = knots \<rparr>)"

text \<open>
  Modelled from the spec: the class \<open>Spline<T, order>\<close> over a support, whose
  constructors and operators \<open>generateBSpline\<close> calls, is not among the sources. The
  splines of the generator are the vector-based ones, which carry the break points of
  their support, with the sum, the difference, the scalar product and \<open>timesx\<close> of
  that class; the B-spline of order 0 at knot \<open>i\<close> is the constant 1 on the one interval
  from \<open>knot[i]\<close> to \<open>knot[i + 1]\<close>; the empty spline on the grid has no break points.
\<close>

definition Spline_indicator :: "'a::linordered_field \<Rightarrow> 'a \<Rightarrow> error + 'a myspline" where
  "Spline_indicator xi xip1 = myspline_ctor 0 [xi, xip1] [[1]]"

definition Spline_empty :: "nat \<Rightarrow> 'a myspline" where
  "Spline_empty ord = myspline_default ord"

text \<open>
  \<open>generateBSpline<k>(i)\<close>. The template parameter \<open>k\<close> is the first argument; the
  instance \<open>k = 0\<close> is rejected by the static assertion and does not exist.
\<close>

fun generateBSpline ::
  "nat \<Rightarrow> 'a::linordered_field BSplineGenerator \<Rightarrow> nat \<Rightarrow> error + 'a myspline" where
  "generateBSpline 0 gen i = Inl STATIC_ASSERTION_FAILED"
| "generateBSpline (Suc 0) gen i =
     bind_result (vector_at (generator_knots gen) i) (\<lambda>xi.
     bind_result (vector_at (generator_knots gen) (i + 1)) (\<lambda>xip1.
       if xi \<ge> xip1 then Inl UNDETERMINED
       else Spline_indicator xi xip1))"
| "generateBSpline (Suc (Suc km2)) gen i =
     (let k = Suc (Suc km2);
          ret0 = Spline_empty (k - 1)
      in
      bind_result (vector_at (generator_knots gen) i) (\<lambda>xi.
      bind_result (vector_at (generator_knots gen) (i + k - 1)) (\<lambda>xipkm1.
      bind_result
        (if xipkm1 > xi then
           (let prefac = 1 / (xipkm1 - xi) in
            bind_result (generateBSpline (Suc km2) gen i) (\<lambda>b1.
              let spline1 = scalar_times prefac b1 in
              bind_result (timesx spline1) (\<lambda>t1.
              bind_result (minus_spline t1 (scalar_times xi spline1)) (\<lambda>d1.
                plus_assign_spline ret0 d1))))
         else Inr ret0) (\<lambda>ret1.
      bind_result (vector_at (generator_knots gen) (i + 1)) (\<lambda>xip1.
      bind_result (vector_at (generator_knots gen) (i + k)) (\<lambda>xipk.
        if xipk > xip1 then
          (let prefac = 1 / (xipk - xip1) in
           bind_result (generateBSpline (Suc km2) gen (i + 1)) (\<lambda>b2.
             let spline2 = scalar_times prefac b2 in
             bind_result (timesx spline2) (\<lambda>t2.
             bind_result (minus_spline (scalar_times xipk spline2) t2) (\<lambda>d2.
               plus_assign_spline ret1 d2))))
        else Inr ret1))))))"

text \<open>\<open>generateBSplines<k>()\<close>: the loop stops at the first exception.\<close>

definition generateBSplines ::
  "nat \<Rightarrow> 'a::linordered_field BSplineGenerator \<Rightarrow> error + 'a myspline list" where
  "generateBSplines k gen =
     (if length (generator_knots gen) < k then Inl UNDETERMINED
      else foldl (\<lambda>ret i. bind_result ret (\<lambda>rs.
                             bind_result (generateBSpline k gen i) (\<lambda>r. Inr (rs @ [r]))))
                 (Inr []) [0..<length (generator_knots gen) - k])"

section \<open>The discrete convolution\<close>

text \<open>
  The coefficient array that the specification asks of a product: the entry \<open>m\<close> of the
  convolution of an array of \<open>p + 1\<close> entries with one of \<open>q + 1\<close> entries is the sum of
  all \<open>a[j] * b[k]\<close> with \<open>j + k = m\<close>.
\<close>

definition discrete_convolution ::
  "nat \<Rightarrow> nat \<Rightarrow> 'a::linordered_field list \<Rightarrow> 'a list \<Rightarrow> 'a list" where
  "discrete_convolution p q a b =
     map (\<lambda>m. \<Sum>j\<leftarrow>[0..<p + 1]. if j \<le> m \<and> m - j < q + 1 then a ! j * b ! (m - j) else 0)
         [0..<p + q + 1]"

section \<open>Example splines\<close>

text \<open>Two splines on the break points of the grid \<open>0, 1, 2, 3\<close>, used as concrete inputs.\<close>

definition example_a :: "rat myspline" where
  "example_a = \<lparr> order = 1, intervals = [0, 1, 2], coefficients = [[1, 2], [3, 4]] \<rparr>"

definition example_b :: "rat myspline" where
  "example_b = \<lparr> order = 0, intervals = [1, 2, 3], coefficients = [[5], [6]] \<rparr>"

text \<open>
  A spline on the break points \<open>0, 2\<close>: the same extent as \<open>example_a\<close>, another grid.
\<close>

definition example_c :: "rat myspline" where
  "example_c = \<lparr> order = 0, intervals = [0, 2], coefficients = [[3]] \<rparr>"

text \<open>The same two splines as splines over supports, each on its own grid.\<close>

definition example_grid_a :: "rat grid" where
  "example_grid_a = \<lparr> grid_size = 3, grid_data_ptr = 1, grid_data = [0, 1, 2] \<rparr>"

definition example_grid_c :: "rat grid" where
  "example_grid_c = \<lparr> grid_size = 2, grid_data_ptr = 2, grid_data = [0, 2] \<rparr>"

definition example_Spline_a :: "rat Spline" where
  "example_Spline_a =
     \<lparr> getOrder = 1,
       getSupport = \<lparr> support_grid = example_grid_a, startIndex = 0, endIndex = 3 \<rparr>,
       getCoefficients = [[1, 2], [3, 4]] \<rparr>"

definition example_Spline_c :: "rat Spline" where
  "example_Spline_c =
     \<lparr> getOrder = 0,
       getSupport = \<lparr> support_grid = example_grid_c, startIndex = 0, endIndex = 2 \<rparr>,
       getCoefficients = [[3]] \<rparr>"

text \<open>The integrand of a plain product: \<open>f\<close> as a caller can pass it.\<close>

definition example_f :: "nat \<Rightarrow> nat \<Rightarrow> rat \<Rightarrow> rat \<Rightarrow> rat \<Rightarrow> rat \<Rightarrow> rat" where
  "example_f i j coeffa coeffb dxhalf xm = coeffa * coeffb * dxhalf"

text \<open>A generator on four knots, the first of them repeated.\<close>

definition example_generator :: "rat BSplineGenerator" where
  "example_generator = BSplineGenerator_from_knots [0, 0, 1, 2]"

section \<open>The constructor and the data invariant\<close>

lemma steadilyIncreasingIntervals_iff:
  "steadilyIncreasingIntervals ivs \<longleftrightarrow> sorted_wrt (<) ivs"
proof -
  have "steadilyIncreasingIntervals ivs \<longleftrightarrow> (\<forall>i. Suc i < length ivs \<longrightarrow> ivs ! i < ivs ! Suc i)"
  proof
    assume a: "steadilyIncreasingIntervals ivs"
    show "\<forall>i. Suc i < length ivs \<longrightarrow> ivs ! i < ivs ! Suc i"
    proof (intro allI impI)
      fix i assume "Suc i < length ivs"
      then have "Suc i \<in> set [1..<length ivs]" by simp
      with a have "\<not> (ivs ! (Suc i - 1) \<ge> ivs ! Suc i)"
        unfolding steadilyIncreasingIntervals_def list_all_iff by blast
      then show "ivs ! i < ivs ! Suc i" by simp
    qed
  next
    assume a: "\<forall>i. Suc i < length ivs \<longrightarrow> ivs ! i < ivs ! Suc i"
    show "steadilyIncreasingIntervals ivs"
      unfolding steadilyIncreasingIntervals_def list_all_iff
    proof
      fix i assume "i \<in> set [1..<length ivs]"
      then have "1 \<le> i \<and> i < length ivs" by simp
      then obtain k where "i = Suc k" "Suc k < length ivs"
        using that by (cases i) auto
      with a show "\<not> (ivs ! (i - 1) \<ge> ivs ! i)" by (simp add: not_le)
    qed
  qed
  also have "\<dots> \<longleftrightarrow> sorted_wrt (<) ivs"
    by (simp add: sorted_wrt_iff_nth_Suc_transp)
  finally show ?thesis .
qed

lemma data_invariant_setData:
  "data_invariant \<lparr> order = ord, intervals = ivs, coefficients = cs \<rparr> \<Longrightarrow>
   setData ord ivs cs = Inr \<lparr> order = ord, intervals = ivs, coefficients = cs \<rparr>"
  by (auto simp: data_invariant_def setData_def)

lemma setData_Inr_iff:
  "setData ord ivs cs = Inr r \<longleftrightarrow>
   r = \<lparr> order = ord, intervals = ivs, coefficients = cs \<rparr> \<and>
   data_invariant \<lparr> order = ord, intervals = ivs, coefficients = cs \<rparr>"
  by (auto simp: data_invariant_def setData_def)

section \<open>Sorting, searching and the invariant\<close>

lemma remdups_adj_strict: "sorted xs \<Longrightarrow> sorted_wrt (<) (remdups_adj xs)"
proof (induction xs rule: remdups_adj.induct)
  case (3 x y xs)
  show ?case
  proof (cases "x = y")
    case True
    with 3 show ?thesis by simp
  next
    case False
    have "x < y" using False "3.prems" by auto
    moreover have "\<forall>z\<in>set xs. y \<le> z" using "3.prems" by simp
    ultimately have "\<forall>z\<in>set (remdups_adj (y # xs)). x < z" by auto
    moreover have "sorted_wrt (<) (remdups_adj (y # xs))" using 3 False by simp
    ultimately show ?thesis using False by simp
  qed
qed simp_all

lemma makeuniquesorted_strict: "sorted_wrt (<) (makeuniquesorted zs)"
  by (simp add: makeuniquesorted_def remdups_adj_strict)

lemma set_makeuniquesorted: "set (makeuniquesorted zs) = set zs"
  by (simp add: makeuniquesorted_def)


lemma find_pos_le: "find_pos xs x \<le> length xs"
  by (induction xs) auto

lemma find_pos_less_iff: "find_pos xs x < length xs \<longleftrightarrow> x \<in> set xs"
  by (induction xs) auto

lemma nth_find_pos: "x \<in> set xs \<Longrightarrow> xs ! find_pos xs x = x"
  by (induction xs) auto

lemma find_pos_nth: "distinct xs \<Longrightarrow> i < length xs \<Longrightarrow> find_pos xs (xs ! i) = i"
proof (induction xs arbitrary: i)
  case (Cons y ys)
  then show ?case by (cases i) auto
qed simp

lemma strict_distinct: "sorted_wrt (<) (xs :: 'a::linorder list) \<Longrightarrow> distinct xs"
  by (simp add: strict_sorted_iff)

lemma data_invariant_strict: "data_invariant s \<Longrightarrow> sorted_wrt (<) (intervals s)"
  by (simp add: data_invariant_def steadilyIncreasingIntervals_iff)

lemma data_invariant_length:
  "data_invariant s \<Longrightarrow> length (coefficients s) = length (intervals s) - 1"
  by (auto simp: data_invariant_def)

section \<open>Evaluation: the interval found by the binary search\<close>

lemma findInterval_loop_inv:
  "0 \<le> starti \<Longrightarrow> starti < endi \<Longrightarrow>
   starti \<le> findInterval_loop ivs x starti endi \<and>
   findInterval_loop ivs x starti endi < endi \<and>
   (findInterval_loop ivs x starti endi = starti \<or>
      ivs ! nat (findInterval_loop ivs x starti endi) < x) \<and>
   (findInterval_loop ivs x starti endi + 1 = endi \<or>
      x \<le> ivs ! nat (findInterval_loop ivs x starti endi + 1))"
proof (induction ivs x starti endi rule: findInterval_loop.induct)
  case (1 ivs x starti endi)
  show ?case
  proof (cases "endi - starti > 1")
    case False
    have "findInterval_loop ivs x starti endi = starti"
      using False by (subst findInterval_loop.simps) simp
    with "1.prems" False show ?thesis by simp
  next
    case True
    define m where "m = (endi + starti) div 2"
    have mb: "starti < m" "m < endi" using True by (auto simp: m_def)
    show ?thesis
    proof (cases "x > ivs ! nat m")
      case gt: True
      have eq: "findInterval_loop ivs x starti endi = findInterval_loop ivs x m endi"
        using True gt by (subst findInterval_loop.simps) (simp add: m_def Let_def)
      have IH: "m \<le> findInterval_loop ivs x m endi \<and>
   findInterval_loop ivs x m endi < endi \<and>
   (findInterval_loop ivs x m endi = m \<or>
      ivs ! nat (findInterval_loop ivs x m endi) < x) \<and>
   (findInterval_loop ivs x m endi + 1 = endi \<or>
      x \<le> ivs ! nat (findInterval_loop ivs x m endi + 1))"
        using "1.IH"(1)[OF True refl] gt mb "1.prems" 
        by (simp add: m_def)
      show ?thesis unfolding eq using IH mb gt by auto
    next
      case le: False
      have eq: "findInterval_loop ivs x starti endi = findInterval_loop ivs x starti m"
        using True le by (subst findInterval_loop.simps) (simp add: m_def Let_def)
      have IH: "starti \<le> findInterval_loop ivs x starti m \<and>
   findInterval_loop ivs x starti m < m \<and>
   (findInterval_loop ivs x starti m = starti \<or>
      ivs ! nat (findInterval_loop ivs x starti m) < x) \<and>
   (findInterval_loop ivs x starti m + 1 = m \<or>
      x \<le> ivs ! nat (findInterval_loop ivs x starti m + 1))"
        using "1.IH"(2)[OF True refl] le mb "1.prems" by (simp add: m_def)
      show ?thesis unfolding eq using IH mb le by auto
    qed
  qed
qed

lemma findInterval_inside:
  assumes "2 \<le> length (intervals s)" "hd (intervals s) \<le> x" "x \<le> last (intervals s)"
  shows "0 \<le> findInterval s x"
    and "nat (findInterval s x) + 1 < length (intervals s)"
    and "findInterval s x = 0 \<or> intervals s ! nat (findInterval s x) < x"
    and "x \<le> intervals s ! (nat (findInterval s x) + 1)"
proof -
  let ?n = "int (length (intervals s)) - 1"
  let ?r = "findInterval_loop (intervals s) x 0 ?n"
  have eq: "findInterval s x = ?r"
    using assms by (auto simp: findInterval_def)
  have inv: "0 \<le> ?r \<and> ?r < ?n \<and> (?r = 0 \<or> intervals s ! nat ?r < x) \<and>
      (?r + 1 = ?n \<or> x \<le> intervals s ! nat (?r + 1))"
    using findInterval_loop_inv[of 0 ?n "intervals s" x] assms(1) by simp
  show "0 \<le> findInterval s x" using inv eq by simp
  show "nat (findInterval s x) + 1 < length (intervals s)" using inv eq by auto
  show "findInterval s x = 0 \<or> intervals s ! nat (findInterval s x) < x" using inv eq by simp
  have ne: "intervals s \<noteq> []" using assms(1) by auto
  have lastn: "last (intervals s) = intervals s ! nat ?n"
    using ne by (simp add: last_conv_nth nat_diff_distrib')
  have nn: "nat (?r + 1) = nat ?r + 1" using inv by (simp add: nat_add_distrib)
  show "x \<le> intervals s ! (nat (findInterval s x) + 1)"
  proof (cases "?r + 1 = ?n")
    case True
    then have "nat ?r + 1 = nat ?n" using nn by simp
    then have "intervals s ! (nat ?r + 1) = last (intervals s)" using lastn by simp
    then show ?thesis using assms(3) eq by simp
  next
    case False
    then have "x \<le> intervals s ! nat (?r + 1)" using inv by blast
    then show ?thesis using nn eq by simp
  qed
qed

text \<open>
  Claim C4, as the code has it. For a spline with strictly increasing break points and a
  point \<open>x\<close> with \<open>front \<le> x \<le> back\<close>, the binary search returns the leftmost
  interval whose right break point is at least \<open>x\<close>: every interval is closed on the
  right, and only the first one is closed on the left as well. For \<open>x\<close> equal to the
  break point at index \<open>m > 0\<close> the search returns \<open>m - 1\<close>, and evaluation uses the
  coefficient array of interval \<open>m - 1\<close>.
\<close>

theorem findInterval_closed_right:
  assumes inc: "steadilyIncreasingIntervals (intervals s)"
    and len: "2 \<le> length (intervals s)" "length (intervals s) < 2 ^ 30"
    and lo: "hd (intervals s) \<le> x" and hi: "x \<le> last (intervals s)"
  shows "0 \<le> findInterval s x \<and>
         nat (findInterval s x) + 1 < length (intervals s) \<and>
         x \<le> intervals s ! (nat (findInterval s x) + 1) \<and>
         (\<forall>j. j < nat (findInterval s x) \<longrightarrow> intervals s ! (j + 1) < x) \<and>
         (\<forall>m. 0 < m \<and> m < length (intervals s) \<and> x = intervals s ! m \<longrightarrow>
              findInterval s x = int m - 1 \<and>
              eval s x = power_sum (coefficients s ! (m - 1))
                           (x - (intervals s ! m + intervals s ! (m - 1)) / 2))"
proof -
  let ?r = "nat (findInterval s x)"
  note fi = findInterval_inside[OF len(1) lo hi]
  have sw: "sorted_wrt (<) (intervals s)"
    using inc by (simp add: steadilyIncreasingIntervals_iff)
  have mono: "\<And>i j. i < j \<Longrightarrow> j < length (intervals s) \<Longrightarrow> intervals s ! i < intervals s ! j"
    using sw by (simp add: sorted_wrt_iff_nth_less)
  have left: "\<forall>j. j < ?r \<longrightarrow> intervals s ! (j + 1) < x"
  proof (intro allI impI)
    fix j assume j: "j < ?r"
    then have rpos: "findInterval s x \<noteq> 0" by auto
    with fi(3) have lt: "intervals s ! ?r < x" by simp
    have "intervals s ! (j + 1) \<le> intervals s ! ?r"
    proof (cases "j + 1 = ?r")
      case True then show ?thesis by simp
    next
      case False
      then have "j + 1 < ?r" using j by simp
      then show ?thesis using mono[of "j + 1" ?r] fi(2) by simp
    qed
    with lt show "intervals s ! (j + 1) < x" by simp
  qed
  have at_break: "\<forall>m. 0 < m \<and> m < length (intervals s) \<and> x = intervals s ! m \<longrightarrow>
              findInterval s x = int m - 1 \<and>
              eval s x = power_sum (coefficients s ! (m - 1))
                           (x - (intervals s ! m + intervals s ! (m - 1)) / 2)"
  proof (intro allI impI)
    fix m assume m: "0 < m \<and> m < length (intervals s) \<and> x = intervals s ! m"
    have "m \<le> ?r + 1"
    proof (rule ccontr)
      assume "\<not> m \<le> ?r + 1"
      then have "?r + 1 < m" by simp
      then have "intervals s ! (?r + 1) < intervals s ! m" using mono m by simp
      with fi(4) m show False by simp
    qed
    moreover have "?r < m"
    proof (cases "findInterval s x = 0")
      case True then show ?thesis using m by simp
    next
      case False
      with fi(3) have "intervals s ! ?r < intervals s ! m" using m by simp
      show ?thesis
      proof (rule ccontr)
        assume "\<not> ?r < m"
        then have "m \<le> ?r" by simp
        then have "intervals s ! m \<le> intervals s ! ?r"
          using mono[of m ?r] fi(2) by (cases "m = ?r") auto
        with \<open>intervals s ! ?r < intervals s ! m\<close> show False by simp
      qed
    qed
    ultimately have r: "?r = m - 1" by simp
    then have fx: "findInterval s x = int m - 1" using fi(1) m by auto
    have "eval s x = power_sum (coefficients s ! (m - 1))
                           (x - (intervals s ! m + intervals s ! (m - 1)) / 2)"
      using fi(1) r m by (simp add: eval_def Let_def)
    with fx show "findInterval s x = int m - 1 \<and>
              eval s x = power_sum (coefficients s ! (m - 1))
                           (x - (intervals s ! m + intervals s ! (m - 1)) / 2)" by simp
  qed
  show ?thesis using fi(1) fi(2) fi(4) left at_break by blast
qed

theorem findInterval_closed_right_witness:
  "findInterval \<lparr> order = 0, intervals = [0, 1, 2 :: rat], coefficients = [[5], [7]] \<rparr> 1 = 0 \<and>
   eval \<lparr> order = 0, intervals = [0, 1, 2 :: rat], coefficients = [[5], [7]] \<rparr> 1 = 5"
proof -
  let ?s = "\<lparr> order = 0, intervals = [0, 1, 2 :: rat], coefficients = [[5], [7]] \<rparr>"
  have a: "steadilyIncreasingIntervals (intervals ?s)" 
    by (simp add: steadilyIncreasingIntervals_def)
  have b: "2 \<le> length (intervals ?s)" "length (intervals ?s) < 2 ^ 30" by simp_all
  have c: "hd (intervals ?s) \<le> 1" "1 \<le> last (intervals ?s)" by simp_all
  from findInterval_closed_right[OF a b c]
  have "\<forall>m. 0 < m \<and> m < length (intervals ?s) \<and> 1 = intervals ?s ! m \<longrightarrow>
              findInterval ?s 1 = int m - 1 \<and>
              eval ?s 1 = power_sum (coefficients ?s ! (m - 1))
                           (1 - (intervals ?s ! m + intervals ?s ! (m - 1)) / 2)" by blast
  from this[rule_format, of 1] show ?thesis by (simp add: power_sum_def)
qed

text \<open>
  The claim as the specification words it (the rightmost interval whose left break point
  is at most \<open>x\<close>) fails at an interior break point: on the break points \<open>0, 1, 2\<close>
  the point \<open>x = 1\<close> is the break point at index 1, the search returns interval 0 and
  the value is the one of interval 0.
\<close>

theorem eval_interior_break_point_counterexample:
  "findInterval \<lparr> order = 0, intervals = [0, 1, 2 :: rat], coefficients = [[5], [7]] \<rparr> 1 \<noteq> 1 \<and>
   eval \<lparr> order = 0, intervals = [0, 1, 2 :: rat], coefficients = [[5], [7]] \<rparr> 1 \<noteq>
     power_sum ([[5], [7]] ! 1) (1 - (2 + 1) / 2)"
  by (simp add: eval_def findInterval_def findInterval_loop.simps power_sum_def)

text \<open>
  Claim C3. Evaluation at a point strictly below the first break point or strictly above
  the last one, or of a spline without break points, returns exactly \<open>0\<close>.
\<close>

theorem eval_outside_support:
  "intervals s = [] \<or> x < hd (intervals s) \<or> x > last (intervals s) \<Longrightarrow> eval s x = 0"
  by (auto simp: eval_def findInterval_def)

theorem eval_outside_support_witness:
  "eval \<lparr> order = 0, intervals = [0, 1, 2 :: rat], coefficients = [[5], [7]] \<rparr> 3 = 0 \<and>
   eval \<lparr> order = 0, intervals = [0, 1, 2 :: rat], coefficients = [[5], [7]] \<rparr> (- 1) = 0 \<and>
   eval \<lparr> order = 2, intervals = [], coefficients = [] \<rparr> (4 :: rat) = 0"
  using eval_outside_support[of "\<lparr> order = 0, intervals = [0, 1, 2 :: rat], coefficients = [[5], [7]] \<rparr>" 3]
    eval_outside_support[of "\<lparr> order = 0, intervals = [0, 1, 2 :: rat], coefficients = [[5], [7]] \<rparr>" "- 1"]
    eval_outside_support[of "\<lparr> order = 2, intervals = [], coefficients = [] \<rparr>" "4 :: rat"]
  by simp

section \<open>Scalar multiplication and division keep the support\<close>

text \<open>
  Claim C10. Multiplying or dividing a spline by a scalar, with the value-returning
  operators and with the in-place ones, leaves the break points and the order as they
  are; every coefficient is multiplied by the scalar (by \<open>1 / d\<close> for a division).
\<close>

theorem scalar_operators_frame:
  "intervals (times_scalar s d) = intervals s \<and>
   order (times_scalar s d) = order s \<and>
   coefficients (times_scalar s d) = map (map (\<lambda>c. c * d)) (coefficients s) \<and>
   intervals (divide_scalar s d) = intervals s \<and>
   order (divide_scalar s d) = order s \<and>
   coefficients (divide_scalar s d) = map (map (\<lambda>c. c * (1 / d))) (coefficients s) \<and>
   intervals (times_assign_scalar s d) = intervals s \<and>
   order (times_assign_scalar s d) = order s \<and>
   coefficients (times_assign_scalar s d) = map (map (\<lambda>c. c * d)) (coefficients s) \<and>
   intervals (divide_assign_scalar s d) = intervals s \<and>
   order (divide_assign_scalar s d) = order s \<and>
   coefficients (divide_assign_scalar s d) = map (map (\<lambda>c. c * (1 / d))) (coefficients s)"
  by (simp add: times_scalar_def divide_scalar_def times_assign_scalar_def
      divide_assign_scalar_def)

section \<open>Equality of supports\<close>

lemma list_all_nth_eq_take:
  "n \<le> length xs \<Longrightarrow> n \<le> length ys \<Longrightarrow>
   list_all (\<lambda>i. \<not> (xs ! i \<noteq> ys ! i)) [0..<n] \<longleftrightarrow> take n xs = take n ys"
  by (auto simp: list_all_iff list_eq_iff_nth_eq)

lemma grid_eq_iff:
  assumes "grid_data_ptr g1 = grid_data_ptr g2 \<longrightarrow> grid_data g1 = grid_data g2"
    and "grid_size g1 \<le> length (grid_data g1)" and "grid_size g2 \<le> length (grid_data g2)"
  shows "grid_eq g1 g2 \<longleftrightarrow> grid_elements g1 = grid_elements g2"
proof (cases "grid_data_ptr g1 = grid_data_ptr g2 \<and> grid_size g1 = grid_size g2")
  case True
  then show ?thesis using assms(1) by (simp add: grid_eq_def grid_elements_def)
next
  case False
  show ?thesis
  proof (cases "grid_size g1 = grid_size g2")
    case True
    then show ?thesis
      using False assms(2,3) list_all_nth_eq_take[of "grid_size g1" "grid_data g1" "grid_data g2"]
      by (simp add: grid_eq_def grid_elements_def)
  next
    case ne: False
    have "length (grid_elements g1) \<noteq> length (grid_elements g2)"
      using ne assms(2,3) by (simp add: grid_elements_def)
    then have "grid_elements g1 \<noteq> grid_elements g2" by auto
    then show ?thesis using ne by (simp add: grid_eq_def)
  qed
qed

lemma hasSameGrid_vector_iff:
  assumes "grid_data_ptr (support_grid s1) = grid_data_ptr (support_grid s2) \<longrightarrow>
           grid_data (support_grid s1) = grid_data (support_grid s2)"
  shows "hasSameGrid_vector s1 s2 \<longleftrightarrow> grid_data (support_grid s1) = grid_data (support_grid s2)"
proof (cases "grid_data_ptr (support_grid s1) = grid_data_ptr (support_grid s2)")
  case True
  then show ?thesis using assms by (simp add: hasSameGrid_vector_def)
next
  case False
  show ?thesis
  proof (cases "length (grid_data (support_grid s1)) = length (grid_data (support_grid s2))")
    case True
    then show ?thesis
      using False list_all_nth_eq_take[of "length (grid_data (support_grid s1))"
          "grid_data (support_grid s1)" "grid_data (support_grid s2)"]
      by (simp add: hasSameGrid_vector_def)
  next
    case ne: False
    then have "grid_data (support_grid s1) \<noteq> grid_data (support_grid s2)" by auto
    then show ?thesis using ne False by (simp add: hasSameGrid_vector_def)
  qed
qed

text \<open>
  Claim C6, as the code has it. Two supports compare equal exactly when their grids are
  logically equal (the same elements in the same order) and, in addition, either their
  index ranges \<open>[start, end)\<close> are identical or both supports are empty. The same
  holds for the variant of the header, where the grid is a shared vector. Two grid
  objects holding the same address are taken to see the same array, and the size of a
  grid does not exceed its array.
\<close>

theorem support_eq_iff:
  assumes "grid_data_ptr (support_grid s1) = grid_data_ptr (support_grid s2) \<longrightarrow>
           grid_data (support_grid s1) = grid_data (support_grid s2)"
    and "grid_size (support_grid s1) \<le> length (grid_data (support_grid s1))"
    and "grid_size (support_grid s2) \<le> length (grid_data (support_grid s2))"
  shows "(support_eq s1 s2 \<longleftrightarrow>
            grid_elements (support_grid s1) = grid_elements (support_grid s2) \<and>
            ((startIndex s1 = startIndex s2 \<and> endIndex s1 = endIndex s2) \<or>
             (support_is_empty s1 \<and> support_is_empty s2))) \<and>
         (support_eq_vector s1 s2 \<longleftrightarrow>
            grid_data (support_grid s1) = grid_data (support_grid s2) \<and>
            ((startIndex s1 = startIndex s2 \<and> endIndex s1 = endIndex s2) \<or>
             (support_is_empty s1 \<and> support_is_empty s2)))"
  using grid_eq_iff[OF assms] hasSameGrid_vector_iff[OF assms(1)]
  by (simp add: support_eq_def support_eq_vector_def hasSameGrid_def)

theorem support_eq_iff_witness:
  "support_eq
     \<lparr> support_grid = \<lparr> grid_size = 3, grid_data_ptr = 1, grid_data = [0, 1, 2 :: rat] \<rparr>,
       startIndex = 0, endIndex = 2 \<rparr>
     \<lparr> support_grid = \<lparr> grid_size = 3, grid_data_ptr = 2, grid_data = [0, 1, 2 :: rat] \<rparr>,
       startIndex = 0, endIndex = 2 \<rparr> \<and>
   support_eq_vector
     \<lparr> support_grid = \<lparr> grid_size = 3, grid_data_ptr = 1, grid_data = [0, 1, 2 :: rat] \<rparr>,
       startIndex = 0, endIndex = 2 \<rparr>
     \<lparr> support_grid = \<lparr> grid_size = 3, grid_data_ptr = 2, grid_data = [0, 1, 2 :: rat] \<rparr>,
       startIndex = 0, endIndex = 2 \<rparr>"
  using support_eq_iff[of
     "\<lparr> support_grid = \<lparr> grid_size = 3, grid_data_ptr = 1, grid_data = [0, 1, 2 :: rat] \<rparr>,
       startIndex = 0, endIndex = 2 \<rparr>"
     "\<lparr> support_grid = \<lparr> grid_size = 3, grid_data_ptr = 2, grid_data = [0, 1, 2 :: rat] \<rparr>,
       startIndex = 0, endIndex = 2 \<rparr>"]
  by (simp add: grid_elements_def)

text \<open>
  The loosening the specification describes is not in the code: two empty supports on
  the grids \<open>0, 1\<close> and \<open>0, 2\<close> compare unequal, in both variants.
\<close>

theorem empty_supports_on_different_grids_counterexample:
  "support_is_empty (support_empty_on \<lparr> grid_size = 2, grid_data_ptr = 1, grid_data = [0, 1 :: rat] \<rparr>) \<and>
   support_is_empty (support_empty_on \<lparr> grid_size = 2, grid_data_ptr = 2, grid_data = [0, 2 :: rat] \<rparr>) \<and>
   \<not> support_eq
       (support_empty_on \<lparr> grid_size = 2, grid_data_ptr = 1, grid_data = [0, 1 :: rat] \<rparr>)
       (support_empty_on \<lparr> grid_size = 2, grid_data_ptr = 2, grid_data = [0, 2 :: rat] \<rparr>) \<and>
   \<not> support_eq_vector
       (support_empty_on \<lparr> grid_size = 2, grid_data_ptr = 1, grid_data = [0, 1 :: rat] \<rparr>)
       (support_empty_on \<lparr> grid_size = 2, grid_data_ptr = 2, grid_data = [0, 2 :: rat] \<rparr>)"
  by (simp add: support_is_empty_def support_empty_on_def support_eq_def support_eq_vector_def
      hasSameGrid_def hasSameGrid_vector_def grid_eq_def eval_nat_numeral)

section \<open>Derivatives\<close>

lemma faculty_eq: "faculty i n = word_of_nat (\<Prod>j<n. i - j)"
  by (induction n) (simp_all add: faculty_def)

lemma unat_faculty:
  "(\<Prod>j<n. i - j) < 2 ^ 64 \<Longrightarrow> unat (faculty i n) = (\<Prod>j<n. i - j)"
  unfolding faculty_eq unat_of_nat by simp

lemma dx_loop:
  "n \<le> m \<Longrightarrow> m - n \<le> L \<Longrightarrow>
   foldl (\<lambda>nc i. nc[i - n := g i]) (make_array L (0::'a::zero)) [n..<m] =
   map (\<lambda>k. if k + n < m then g (k + n) else 0) [0..<L]"
proof (induction m)
  case 0
  then show ?case by (simp add: make_array_def)
next
  case (Suc m)
  show ?case
  proof (cases "n \<le> m")
    case False
    with Suc.prems have "n = Suc m" by simp
    then show ?thesis by (simp add: make_array_def)
  next
    case True
    have IH: "foldl (\<lambda>nc i. nc[i - n := g i]) (make_array L 0) [n..<m] =
       map (\<lambda>k. if k + n < m then g (k + n) else 0) [0..<L]"
      using Suc.IH Suc.prems True by simp
    have "foldl (\<lambda>nc i. nc[i - n := g i]) (make_array L 0) [n..<Suc m] =
      (map (\<lambda>k. if k + n < m then g (k + n) else 0) [0..<L])[m - n := g m]"
      using True IH by simp
    also have "\<dots> = map (\<lambda>k. if k + n < Suc m then g (k + n) else 0) [0..<L]"
      using True Suc.prems by (auto simp: list_eq_iff_nth_eq nth_list_update)
    finally show ?thesis .
  qed
qed

lemma dx_array_eq:
  assumes "n \<le> ord"
  shows "dx_array ord n c =
     map (\<lambda>k. of_nat (unat (faculty (k + n) n)) * c ! (k + n)) [0..<ord - n + 1]"
proof -
  have "dx_array ord n c =
     foldl (\<lambda>nc i. nc[i - n := of_nat (unat (faculty i n)) * c ! i])
       (make_array (ord - n + 1) 0) [n..<ord + 1]"
    using assms by (simp add: dx_array_def orderdx_def Let_def del: upt_Suc)
  also have "\<dots> = map (\<lambda>k. if k + n < ord + 1 then of_nat (unat (faculty (k + n) n)) * c ! (k + n) else 0)
       [0..<ord - n + 1]"
    using assms by (intro dx_loop) auto
  also have "\<dots> = map (\<lambda>k. of_nat (unat (faculty (k + n) n)) * c ! (k + n)) [0..<ord - n + 1]"
    using assms by (intro map_cong) auto
  finally show ?thesis .
qed

lemma dx_result:
  assumes "data_invariant s" "n \<le> order s"
  shows "dx n s = Inr \<lparr> order = order s - n, intervals = intervals s,
            coefficients = map (\<lambda>ii. map (\<lambda>k. of_nat (unat (faculty (k + n) n)) * coefficients s ! ii ! (k + n))
                                 [0..<order s - n + 1]) [0..<length (coefficients s)] \<rparr>"
proof -
  have "data_invariant \<lparr> order = order s - n, intervals = intervals s,
            coefficients = map (\<lambda>ii. map (\<lambda>k. of_nat (unat (faculty (k + n) n)) * coefficients s ! ii ! (k + n))
                                 [0..<order s - n + 1]) [0..<length (coefficients s)] \<rparr>"
    using assms(1) by (simp add: data_invariant_def)
  from data_invariant_setData[OF this] show ?thesis
    using assms(2) by (simp add: dx_def myspline_ctor_def orderdx_def dx_array_eq Let_def del: upt_Suc)
qed

text \<open>
  As long as the falling factorial of the highest power fits into 64 bits, the
  derivative is the one of the documentation: the order drops by \<open>n\<close>, the break points
  stay, and the coefficient of the power \<open>i \<ge> n\<close> moves to the power \<open>i - n\<close>, scaled by
  \<open>i * (i - 1) * ... * (i - n + 1)\<close>.
\<close>

lemma dx_within_word_range:
  assumes inv: "data_invariant s" and n: "n \<le> order s"
    and fits: "(\<Prod>j<n. order s - j) < 2 ^ 64"
  shows "\<exists>r. dx n s = Inr r \<and> order r = order s - n \<and> intervals r = intervals s \<and>
           length (coefficients r) = length (coefficients s) \<and>
           (\<forall>ii i. ii < length (coefficients s) \<and> n \<le> i \<and> i \<le> order s \<longrightarrow>
              coefficients r ! ii ! (i - n) = of_nat (\<Prod>j<n. i - j) * coefficients s ! ii ! i)"
proof -
  have small: "unat (faculty i n) = (\<Prod>j<n. i - j)" if "i \<le> order s" for i
  proof -
    have "(\<Prod>j<n. i - j) \<le> (\<Prod>j<n. order s - j)"
      using that by (intro prod_mono) auto
    with fits have "(\<Prod>j<n. i - j) < 2 ^ 64" by simp
    then show ?thesis by (rule unat_faculty)
  qed
  let ?r = "\<lparr> order = order s - n, intervals = intervals s,
            coefficients = map (\<lambda>ii. map (\<lambda>k. of_nat (unat (faculty (k + n) n)) * coefficients s ! ii ! (k + n))
                                 [0..<order s - n + 1]) [0..<length (coefficients s)] \<rparr>"
  have r: "dx n s = Inr ?r" by (rule dx_result[OF inv n])
  have "coefficients ?r ! ii ! (i - n) = of_nat (\<Prod>j<n. i - j) * coefficients s ! ii ! i"
    if "ii < length (coefficients s)" "n \<le> i" "i \<le> order s" for ii i
  proof -
    have "i - n < order s - n + 1" using that by simp
    then have "coefficients ?r ! ii ! (i - n) =
        of_nat (unat (faculty (i - n + n) n)) * coefficients s ! ii ! (i - n + n)"
      using that(1) by (simp del: upt_Suc)
    then show ?thesis using that small[of i] by simp
  qed
  then show ?thesis using r by (intro exI[of _ ?r]) simp
qed

lemma dx_above_order:
  "n > order s \<Longrightarrow> dx n s = Inr (myspline_default 0) \<and> isZero (myspline_default 0 :: 'a::linordered_field myspline)"
  by (simp add: dx_def myspline_default_def isZero_def)

lemma faculty_21: "faculty 21 21 = 14197454024290336768"
  by code_simp

lemma unsigned_faculty_21:
  "(unsigned (faculty 21 21) :: 'a::linordered_field) = 14197454024290336768"
  by (simp add: faculty_21)

text \<open>
  Claim C5 at a spline of order 21 on the break points \<open>0, 1\<close> whose only non-zero
  coefficient is the one of the power 21, differentiated 21 times. The claim asks for
  the coefficient \<open>21 * 20 * ... * 1\<close> of the power 0; the product computed in the
  \<open>size_t\<close> variable has wrapped around, and the code returns another number.
\<close>

theorem dx_order_21_wraps:
  "dx 21 \<lparr> order = 21, intervals = [0, 1 :: rat], coefficients = [replicate 21 0 @ [1]] \<rparr> =
     Inr \<lparr> order = 0, intervals = [0, 1], coefficients = [[14197454024290336768]] \<rparr> \<and>
   (14197454024290336768 :: rat) \<noteq> fact 21 * 1"
proof -
  have "dx 21 \<lparr> order = 21, intervals = [0, 1 :: rat], coefficients = [replicate 21 0 @ [1]] \<rparr> =
     Inr \<lparr> order = 0, intervals = [0, 1], coefficients = [[14197454024290336768]] \<rparr>"
    by (simp add: dx_def dx_array_def orderdx_def make_array_def myspline_ctor_def setData_def
        steadilyIncreasingIntervals_def unsigned_faculty_21 nth_append)
  moreover have "(14197454024290336768 :: rat) \<noteq> fact 21 * 1"
    by (simp add: fact_numeral)
  ultimately show ?thesis by simp
qed

section \<open>Sums of splines\<close>








section \<open>Products of splines\<close>

subsection \<open>The loops compute the discrete convolution\<close>

lemma inner_loop:
  fixes x :: "'a::linordered_field"
  shows
  "length (foldl (\<lambda>c k. c[j + k := c ! (j + k) + x * b ! k]) c [0..<K]) = length c \<and>
   (\<forall>m < length c. foldl (\<lambda>c k. c[j + k := c ! (j + k) + x * b ! k]) c [0..<K] ! m =
      c ! m + (if j \<le> m \<and> m - j < K then x * b ! (m - j) else 0))"
proof (induction K)
  case 0
  then show ?case by simp
next
  case (Suc K)
  show ?case
  proof (intro conjI allI impI)
    show "length (foldl (\<lambda>c k. c[j + k := c ! (j + k) + x * b ! k]) c [0..<Suc K]) = length c"
      using Suc by simp
  next
    fix m assume m: "m < length c"
    show "foldl (\<lambda>c k. c[j + k := c ! (j + k) + x * b ! k]) c [0..<Suc K] ! m =
      c ! m + (if j \<le> m \<and> m - j < Suc K then x * b ! (m - j) else 0)"
    proof (cases "m = j + K")
      case True
      then show ?thesis using Suc m by simp
    next
      case False
      then have "\<not> (j \<le> m \<and> m - j = K)" by auto
      then have "(j \<le> m \<and> m - j < Suc K) = (j \<le> m \<and> m - j < K)" by auto
      then show ?thesis using Suc m False by simp
    qed
  qed
qed

lemma outer_loop:
  fixes a :: "'a::linordered_field list"
  shows
  "length (foldl (\<lambda>c j. foldl (\<lambda>c k. c[j + k := c ! (j + k) + a ! j * b ! k]) c [0..<K]) c [0..<J])
     = length c \<and>
   (\<forall>m < length c.
      foldl (\<lambda>c j. foldl (\<lambda>c k. c[j + k := c ! (j + k) + a ! j * b ! k]) c [0..<K]) c [0..<J] ! m =
      c ! m + (\<Sum>j\<leftarrow>[0..<J]. if j \<le> m \<and> m - j < K then a ! j * b ! (m - j) else 0))"
proof (induction J)
  case 0
  then show ?case by simp
next
  case (Suc J)
  let ?c = "foldl (\<lambda>c j. foldl (\<lambda>c k. c[j + k := c ! (j + k) + a ! j * b ! k]) c [0..<K]) c [0..<J]"
  have step: "foldl (\<lambda>c j. foldl (\<lambda>c k. c[j + k := c ! (j + k) + a ! j * b ! k]) c [0..<K]) c [0..<Suc J]
     = foldl (\<lambda>c k. c[J + k := c ! (J + k) + a ! J * b ! k]) ?c [0..<K]" by simp
  have len: "length ?c = length c" using Suc by simp
  show ?case unfolding step
    using inner_loop[of J "a ! J" b ?c K] Suc len by (simp add: add.assoc)
qed

lemma multiply_arrays_convolution:
  "multiply_arrays p q a b = discrete_convolution p q a b"
proof -
  let ?r = "multiply_arrays p q a b"
  have l: "length ?r = p + q + 1"
    using outer_loop[of a b "q + 1" "make_array (p + q + 1) 0" "p + 1"]
    by (simp add: multiply_arrays_def make_array_def del: upt_Suc)
  have n: "?r ! m = (\<Sum>j\<leftarrow>[0..<p + 1]. if j \<le> m \<and> m - j < q + 1 then a ! j * b ! (m - j) else 0)"
    if "m < p + q + 1" for m
    using outer_loop[of a b "q + 1" "make_array (p + q + 1) 0" "p + 1"] that
    by (simp add: multiply_arrays_def make_array_def del: upt_Suc)
  show ?thesis
    unfolding discrete_convolution_def
  proof (rule nth_equalityI)
    show "length ?r = length (map (\<lambda>m. \<Sum>j\<leftarrow>[0..<p + 1]. if j \<le> m \<and> m - j < q + 1
            then a ! j * b ! (m - j) else 0) [0..<p + q + 1])"
      by (simp add: l del: upt_Suc)
  next
    fix i assume "i < length ?r"
    then have i: "i < p + q + 1" using l by simp
    have "map (\<lambda>m. \<Sum>j\<leftarrow>[0..<p + 1]. if j \<le> m \<and> m - j < q + 1
            then a ! j * b ! (m - j) else 0) [0..<p + q + 1] ! i =
          (\<Sum>j\<leftarrow>[0..<p + 1]. if j \<le> 0 + i \<and> 0 + i - j < q + 1
            then a ! j * b ! (0 + i - j) else 0)"
      using i by (intro nth_map_upt) simp
    then show "?r ! i = map (\<lambda>m. \<Sum>j\<leftarrow>[0..<p + 1]. if j \<le> m \<and> m - j < q + 1
            then a ! j * b ! (m - j) else 0) [0..<p + q + 1] ! i"
      using n[OF i] by (simp del: upt_Suc cong: if_cong)
  qed
qed

subsection \<open>Splines on a common grid\<close>

lemma slice_nth:
  "s + l \<le> length g \<Longrightarrow> length (take l (drop s g)) = l \<and>
     (\<forall>i<l. take l (drop s g) ! i = g ! (s + i))"
  by simp

lemma strict_nth_less_iff:
  fixes g :: "'a::linorder list"
  assumes "sorted_wrt (<) g" "i < length g" "j < length g"
  shows "g ! i < g ! j \<longleftrightarrow> i < j"
proof
  assume "i < j" then show "g ! i < g ! j"
    using assms by (simp add: sorted_wrt_iff_nth_less)
next
  assume l: "g ! i < g ! j"
  show "i < j"
  proof (rule ccontr)
    assume "\<not> i < j"
    then consider "j = i" | "j < i" by fastforce
    then have "g ! j \<le> g ! i"
    proof cases
      case 1 then show ?thesis by simp
    next
      case 2
      then have "g ! j < g ! i" using assms by (simp add: sorted_wrt_iff_nth_less)
      then show ?thesis by simp
    qed
    with l show False by simp
  qed
qed

lemma strict_nth_le_iff:
  fixes g :: "'a::linorder list"
  assumes "sorted_wrt (<) g" "i < length g" "j < length g"
  shows "g ! i \<le> g ! j \<longleftrightarrow> i \<le> j"
  using strict_nth_less_iff[OF assms(1,3,2)] by (auto simp: not_less[symmetric])

lemma strict_slice: "sorted_wrt (<) g \<Longrightarrow> sorted_wrt (<) (take l (drop s g))"
  by (simp add: sorted_wrt_drop sorted_wrt_take)

lemma on_grid_ends:
  assumes "intervals a = take la (drop sa g)" "sa + la \<le> length g" "0 < la"
  shows "hd (intervals a) = g ! sa" "last (intervals a) = g ! (sa + la - 1)"
    "intervals a \<noteq> []"
proof -
  have len: "length (intervals a) = la" using assms by simp
  then show ne: "intervals a \<noteq> []" using assms(3) by auto
  show "hd (intervals a) = g ! sa"
    using ne assms by (simp add: hd_conv_nth)
  show "last (intervals a) = g ! (sa + la - 1)"
    using ne assms len by (simp add: last_conv_nth)
qed

lemma checkOverlap_on_grid:
  fixes g :: "'a::linorder list"
  assumes g: "sorted_wrt (<) g"
    and a: "intervals a = take la (drop sa g)" "sa + la \<le> length g"
    and b: "intervals b = take lb (drop sb g)" "sb + lb \<le> length g"
  shows "checkOverlap a b \<longleftrightarrow> 0 < la \<and> 0 < lb \<and> sa + 1 < sb + lb \<and> sb + 1 < sa + la"
proof (cases "0 < la \<and> 0 < lb")
  case False
  then have "intervals a = [] \<or> intervals b = []" using a b by auto
  then show ?thesis using False by (auto simp: checkOverlap_def)
next
  case True
  note ea = on_grid_ends[OF a] and eb = on_grid_ends[OF b]
  have 1: "g ! (sb + lb - 1) \<le> g ! sa \<longleftrightarrow> sb + lb - 1 \<le> sa"
    using True a b by (intro strict_nth_le_iff[OF g]) auto
  have 2: "g ! (sa + la - 1) \<le> g ! sb \<longleftrightarrow> sa + la - 1 \<le> sb"
    using True a b by (intro strict_nth_le_iff[OF g]) auto
  show ?thesis
    using True ea eb 1 2 by (auto simp: checkOverlap_def Let_def)
qed

lemma findOverlappingIntervals_on_grid:
  fixes g :: "'a::linorder list"
  assumes g: "sorted_wrt (<) g"
    and a: "intervals a = take la (drop sa g)" "sa + la \<le> length g"
    and b: "intervals b = take lb (drop sb g)" "sb + lb \<le> length g"
    and ov: "checkOverlap a b"
  shows "findOverlappingIntervals a b =
           Inr (max sa sb - sa, max sa sb - sb, min (sa + la) (sb + lb) - max sa sb - 1)"
proof -
  from ov have pos: "0 < la" "0 < lb" "sa + 1 < sb + lb" "sb + 1 < sa + la"
    using checkOverlap_on_grid[OF g a b] by auto
  note ea = on_grid_ends[OF a pos(1)] and eb = on_grid_ends[OF b pos(2)]
  have da: "distinct (intervals a)" and db: "distinct (intervals b)"
    using g a(1) b(1) by (simp_all add: strict_distinct strict_slice)
  have la: "length (intervals a) = la" and lb: "length (intervals b) = lb"
    using a b by simp_all
  have le: "g ! sb \<le> g ! sa \<longleftrightarrow> sb \<le> sa"
    using pos a b by (intro strict_nth_le_iff[OF g]) auto
  show ?thesis
  proof (cases "sb \<le> sa")
    case True
    have "intervals b ! (sa - sb) = g ! sa" using True pos b by simp
    then have "find_pos (intervals b) (g ! sa) = sa - sb"
      using find_pos_nth[OF db, of "sa - sb"] True pos lb by auto
    moreover have "sa - sb + 2 \<le> lb" using True pos by arith
    ultimately have "findOverlappingIntervals a b =
        Inr (0, sa - sb, min (lb - (sa - sb) - 1) (la - 0 - 1))"
      using True ov le ea eb la lb
      by (simp add: findOverlappingIntervals_def Let_def)
    moreover have "max sa sb - sa = 0" "max sa sb - sb = sa - sb"
      "min (sa + la) (sb + lb) - max sa sb - 1 = min (lb - (sa - sb) - 1) (la - 0 - 1)"
      using True pos by arith+
    ultimately show ?thesis by (simp only:)
  next
    case False
    have "intervals a ! (sb - sa) = g ! sb" using False pos a by simp
    then have "find_pos (intervals a) (g ! sb) = sb - sa"
      using find_pos_nth[OF da, of "sb - sa"] False pos la by auto
    moreover have "sb - sa + 2 \<le> la" using False pos by arith
    ultimately have "findOverlappingIntervals a b =
        Inr (sb - sa, 0, min (lb - 0 - 1) (la - (sb - sa) - 1))"
      using False ov le ea eb la lb
      by (simp add: findOverlappingIntervals_def Let_def)
    moreover have "max sa sb - sa = sb - sa" "max sa sb - sb = 0"
      "min (sa + la) (sb + lb) - max sa sb - 1 = min (lb - 0 - 1) (la - (sb - sa) - 1)"
      using False pos by arith+
    ultimately show ?thesis by (simp only:)
  qed
qed

lemma sum_list_all_zero:
  "(\<And>x. x \<in> set xs \<Longrightarrow> f x = 0) \<Longrightarrow> (\<Sum>x\<leftarrow>xs. f x) = (0::'a::monoid_add)"
  by (induction xs) auto

lemma overlap_arith:
  fixes sa sb la lb :: nat
  assumes "sa + 1 < sb + lb" "sb + 1 < sa + la" "2 \<le> la" "2 \<le> lb"
  shows "0 < min (sa + la) (sb + lb) - max sa sb - 1"
    and "min (sa + la) (sb + lb) - max sa sb = min (sa + la) (sb + lb) - max sa sb - 1 + 1"
    and "max sa sb - sa + (min (sa + la) (sb + lb) - max sa sb - 1) + 1 \<le> la"
    and "max sa sb - sb + (min (sa + la) (sb + lb) - max sa sb - 1) + 1 \<le> lb"
    and "sa + (max sa sb - sa) = max sa sb"
    and "sb + (max sa sb - sb) = max sa sb"
  using assms by (auto simp: min_def max_def)

lemma times_spline_overlap:
  fixes g :: "'a::linordered_field list"
  assumes g: "sorted_wrt (<) g"
    and a: "intervals a = take la (drop sa g)" "sa + la \<le> length g"
    and b: "intervals b = take lb (drop sb g)" "sb + lb \<le> length g"
    and inv: "data_invariant a" "data_invariant b"
    and ov: "checkOverlap a b"
  shows "times_spline a b =
     Inr \<lparr> order = order a + order b,
           intervals = take (min (sa + la) (sb + lb) - max sa sb) (drop (max sa sb) g),
           coefficients =
             map (\<lambda>i. discrete_convolution (order a) (order b)
                         (coefficients a ! (i + (max sa sb - sa)))
                         (coefficients b ! (i + (max sa sb - sb))))
                 [0..<min (sa + la) (sb + lb) - max sa sb - 1] \<rparr>"
proof -
  define lo where "lo = max sa sb"
  define hi where "hi = min (sa + la) (sb + lb)"
  define n where "n = hi - lo - 1"
  define s1 where "s1 = lo - sa"
  define s2 where "s2 = lo - sb"
  from ov have pos: "0 < la" "0 < lb" "sa + 1 < sb + lb" "sb + 1 < sa + la"
    using checkOverlap_on_grid[OF g a b] by auto
  have two: "2 \<le> la" "2 \<le> lb"
    using inv pos(1,2) a b by (auto simp: data_invariant_def)
  have ar: "0 < n" "hi - lo = n + 1" "s1 + n + 1 \<le> la" "sa + s1 = lo"
    using overlap_arith[OF pos(3,4) two] unfolding lo_def hi_def n_def s1_def by blast+
  have fo: "findOverlappingIntervals a b = Inr (s1, s2, n)"
    unfolding s1_def s2_def n_def lo_def hi_def
    by (rule findOverlappingIntervals_on_grid[OF g a b ov])
  have "intervals a ! s1 # map (\<lambda>i. intervals a ! (s1 + i + 1)) [0..<n] =
      take (n + 1) (drop s1 (intervals a))"
    by (rule nth_equalityI) (use ar a in \<open>auto simp: nth_Cons split: nat.splits\<close>)
  also have "\<dots> = take (n + 1) (drop lo g)"
    unfolding a(1) using ar by (simp add: take_drop min_absorb2 add.commute)
  finally have iv: "intervals a ! s1 # map (\<lambda>i. intervals a ! (s1 + i + 1)) [0..<n] =
      take (n + 1) (drop lo g)" .
  let ?cs = "map (\<lambda>i. discrete_convolution (order a) (order b)
                         (coefficients a ! (i + s1)) (coefficients b ! (i + s2))) [0..<n]"
  have len: "length (take (n + 1) (drop lo g)) = n + 1"
    using ar a(2) by simp
  have "data_invariant \<lparr> order = order a + order b, intervals = take (n + 1) (drop lo g),
           coefficients = ?cs \<rparr>"
    unfolding data_invariant_def steadilyIncreasingIntervals_iff
    using len ar(1) strict_slice[OF g, of "n + 1" lo] by simp
  from data_invariant_setData[OF this]
  have "times_spline a b = Inr \<lparr> order = order a + order b,
           intervals = take (n + 1) (drop lo g), coefficients = ?cs \<rparr>"
    using ar(1) iv
    by (simp add: times_spline_def fo myspline_ctor_def multiply_arrays_convolution)
  then show ?thesis
    unfolding ar(2)[symmetric] unfolding n_def s1_def s2_def hi_def lo_def .
qed

lemma times_spline_no_overlap:
  "\<not> checkOverlap a b \<Longrightarrow> times_spline a b = Inr (myspline_default (order a + order b))"
  by (simp add: times_spline_def findOverlappingIntervals_def)

lemma discrete_convolution_zero_left:
  assumes "\<forall>j<p + 1. a ! j = 0"
  shows "list_all (\<lambda>c. \<not> c \<noteq> 0) (discrete_convolution p q a b)"
proof -
  have "(\<Sum>j\<leftarrow>[0..<p + 1]. if j \<le> m \<and> m - j < q + 1 then a ! j * b ! (m - j) else 0) = 0" for m
    by (rule sum_list_all_zero) (use assms in auto)
  then show ?thesis by (simp add: discrete_convolution_def list_all_iff del: upt_Suc)
qed

lemma discrete_convolution_zero_right:
  assumes "\<forall>k<q + 1. b ! k = 0"
  shows "list_all (\<lambda>c. \<not> c \<noteq> 0) (discrete_convolution p q a b)"
proof -
  have "(\<Sum>j\<leftarrow>[0..<p + 1]. if j \<le> m \<and> m - j < q + 1 then a ! j * b ! (m - j) else 0) = 0" for m
    by (rule sum_list_all_zero) (use assms in auto)
  then show ?thesis by (simp add: discrete_convolution_def list_all_iff del: upt_Suc)
qed

lemma isZero_coefficient:
  assumes "isZero s" "intervals s \<noteq> []" "array_sizes s" "i < length (coefficients s)"
  shows "\<forall>j<order s + 1. coefficients s ! i ! j = 0"
proof -
  have "list_all (\<lambda>c. \<not> c \<noteq> 0) (coefficients s ! i)"
    using assms(1,2,4) by (simp add: isZero_def list_all_length)
  moreover have "length (coefficients s ! i) = order s + 1"
    using assms(3,4) by (simp add: array_sizes_def list_all_length)
  ultimately show ?thesis by (simp add: list_all_length)
qed

text \<open>
  Claim C2. Let the break points of \<open>a\<close> be the \<open>la\<close> points of a strictly increasing
  grid \<open>g\<close> from index \<open>sa\<close> on, and the ones of \<open>b\<close> the \<open>lb\<close> points from index \<open>sb\<close>
  on, so that the break points of both coincide index for index where the supports
  overlap. Then the product is returned and has order \<open>p + q\<close>. If the supports overlap,
  its break points are the common grid points and its coefficient array on each
  common interval is the discrete convolution of the arrays of \<open>a\<close> and \<open>b\<close> on that
  interval. If they do not overlap, the result is the empty spline of order \<open>p + q\<close>.
  If \<open>a\<close> is zero, \<open>b\<close> is zero or the supports do not overlap, the result is zero.
\<close>

theorem times_spline_on_grid:
  fixes g :: "'a::linordered_field list"
  assumes g: "sorted_wrt (<) g"
    and a: "intervals a = take la (drop sa g)" "sa + la \<le> length g"
    and b: "intervals b = take lb (drop sb g)" "sb + lb \<le> length g"
    and inv: "data_invariant a" "data_invariant b"
    and arr: "array_sizes a" "array_sizes b"
  shows "(\<exists>r. times_spline a b = Inr r \<and> order r = order a + order b \<and>
            (isZero a \<or> isZero b \<or> \<not> checkOverlap a b \<longrightarrow> isZero r)) \<and>
         (checkOverlap a b \<longrightarrow>
            times_spline a b =
              Inr \<lparr> order = order a + order b,
                    intervals = take (min (sa + la) (sb + lb) - max sa sb) (drop (max sa sb) g),
                    coefficients =
                      map (\<lambda>i. discrete_convolution (order a) (order b)
                                  (coefficients a ! (i + (max sa sb - sa)))
                                  (coefficients b ! (i + (max sa sb - sb))))
                          [0..<min (sa + la) (sb + lb) - max sa sb - 1] \<rparr>) \<and>
         (\<not> checkOverlap a b \<longrightarrow>
            times_spline a b = Inr (myspline_default (order a + order b)))"
proof (cases "checkOverlap a b")
  case False
  have "isZero (myspline_default (order a + order b) :: 'a myspline)"
    by (simp add: isZero_def myspline_default_def)
  then show ?thesis
    using False times_spline_no_overlap[OF False]
    by (simp add: myspline_default_def)
next
  case True
  let ?lo = "max sa sb" and ?hi = "min (sa + la) (sb + lb)"
  let ?n = "?hi - ?lo - 1"
  let ?r = "\<lparr> order = order a + order b,
           intervals = take (?hi - ?lo) (drop ?lo g),
           coefficients =
             map (\<lambda>i. discrete_convolution (order a) (order b)
                         (coefficients a ! (i + (?lo - sa)))
                         (coefficients b ! (i + (?lo - sb))))
                 [0..<?n] \<rparr>"
  have r: "times_spline a b = Inr ?r"
    by (rule times_spline_overlap[OF g a b inv True])
  from True have pos: "0 < la" "0 < lb" "sa + 1 < sb + lb" "sb + 1 < sa + la"
    using checkOverlap_on_grid[OF g a b] by auto
  have nea: "intervals a \<noteq> []" and neb: "intervals b \<noteq> []"
    using on_grid_ends(3)[OF a pos(1)] on_grid_ends(3)[OF b pos(2)] by simp_all
  have lca: "length (coefficients a) = la - 1" and lcb: "length (coefficients b) = lb - 1"
    using data_invariant_length[OF inv(1)] data_invariant_length[OF inv(2)] a b by simp_all
  have ia: "i + (?lo - sa) < length (coefficients a)" if "i < ?n" for i
    using that lca pos by arith
  have ib: "i + (?lo - sb) < length (coefficients b)" if "i < ?n" for i
    using that lcb pos by arith
  have za: "isZero ?r" if "isZero a"
  proof -
    have "list_all (\<lambda>c. \<not> c \<noteq> 0) (discrete_convolution (order a) (order b)
                         (coefficients a ! (i + (?lo - sa)))
                         (coefficients b ! (i + (?lo - sb))))" if "i < ?n" for i
      by (rule discrete_convolution_zero_left)
         (rule isZero_coefficient[OF \<open>isZero a\<close> nea arr(1) ia[OF that]])
    then show ?thesis by (simp add: isZero_def list_all_iff)
  qed
  have zb: "isZero ?r" if "isZero b"
  proof -
    have "list_all (\<lambda>c. \<not> c \<noteq> 0) (discrete_convolution (order a) (order b)
                         (coefficients a ! (i + (?lo - sa)))
                         (coefficients b ! (i + (?lo - sb))))" if "i < ?n" for i
      by (rule discrete_convolution_zero_right)
         (rule isZero_coefficient[OF \<open>isZero b\<close> neb arr(2) ib[OF that]])
    then show ?thesis by (simp add: isZero_def list_all_iff)
  qed
  have "\<exists>r. times_spline a b = Inr r \<and> order r = order a + order b \<and>
            (isZero a \<or> isZero b \<or> \<not> checkOverlap a b \<longrightarrow> isZero r)"
    using r za zb True by (intro exI[of _ ?r]) auto
  then show ?thesis using r True by simp
qed

theorem times_spline_on_grid_witness:
  "times_spline example_a example_b =
     Inr \<lparr> order = 1, intervals = [1, 2], coefficients = [[15, 20]] \<rparr>"
proof -
  have g: "sorted_wrt (<) [0, 1, 2, 3 :: rat]" by simp
  have a: "intervals example_a = take 3 (drop 0 [0, 1, 2, 3 :: rat])" "0 + 3 \<le> length [0, 1, 2, 3 :: rat]"
    by (simp_all add: example_a_def)
  have b: "intervals example_b = take 3 (drop 1 [0, 1, 2, 3 :: rat])" "1 + 3 \<le> length [0, 1, 2, 3 :: rat]"
    by (simp_all add: example_b_def)
  have inv: "data_invariant example_a" "data_invariant example_b"
    by (simp_all add: example_a_def example_b_def data_invariant_def
        steadilyIncreasingIntervals_def upt_conv_Cons)
  have arr: "array_sizes example_a" "array_sizes example_b"
    by (simp_all add: example_a_def example_b_def array_sizes_def)
  have ov: "checkOverlap example_a example_b"
    by (simp add: example_a_def example_b_def checkOverlap_def)
  have c: "discrete_convolution (Suc 0) 0 [3, 4] [5 :: rat] = [15, 20]"
    by (simp add: discrete_convolution_def upt_conv_Cons)
  from times_spline_on_grid[OF g a b inv arr] ov
  have "times_spline example_a example_b =
              Inr \<lparr> order = order example_a + order example_b,
                    intervals = take (min (0 + 3) (1 + 3) - max 0 1) (drop (max 0 1) [0, 1, 2, 3 :: rat]),
                    coefficients =
                      map (\<lambda>i. discrete_convolution (order example_a) (order example_b)
                                  (coefficients example_a ! (i + (max 0 1 - 0)))
                                  (coefficients example_b ! (i + (max 0 1 - 1))))
                          [0..<min (0 + 3) (1 + 3) - max 0 1 - 1] \<rparr>"
    by blast
  then show ?thesis
    by (simp add: example_a_def example_b_def c upt_conv_Cons)
qed

section \<open>Operands on different grids\<close>

lemma setData_not_differing: "setData ord ivs cs \<noteq> Inl DIFFERING_GRIDS"
  by (simp add: setData_def)

lemma plus_spline_not_differing: "plus_spline a b \<noteq> Inl DIFFERING_GRIDS"
  by (simp add: plus_spline_def Let_def myspline_ctor_def setData_not_differing)

lemma times_spline_not_differing: "times_spline a b \<noteq> Inl DIFFERING_GRIDS"
  by (auto simp: times_spline_def Let_def myspline_ctor_def setData_not_differing
      findOverlappingIntervals_def split: sum.splits prod.splits if_splits)

text \<open>
  Claim C1, as the code has it. The analytical integration of two splines whose supports
  lie on grids with different elements fails with \<open>DIFFERING_GRIDS\<close>, whatever the
  integrand \<open>f\<close> is, also when the first and the last grid point of both grids
  coincide. The sum and the product of the vector-based class have no grid to compare
  and never fail with \<open>DIFFERING_GRIDS\<close>.
\<close>

theorem integration_differing_grids:
  assumes "grid_data_ptr (support_grid (getSupport m1)) = grid_data_ptr (support_grid (getSupport m2)) \<longrightarrow>
           grid_data (support_grid (getSupport m1)) = grid_data (support_grid (getSupport m2))"
    and "grid_size (support_grid (getSupport m1)) \<le> length (grid_data (support_grid (getSupport m1)))"
    and "grid_size (support_grid (getSupport m2)) \<le> length (grid_data (support_grid (getSupport m2)))"
    and "grid_elements (support_grid (getSupport m1)) \<noteq> grid_elements (support_grid (getSupport m2))"
  shows "helperAnalyticIntegration f m1 m2 = Inl DIFFERING_GRIDS \<and>
         plus_spline a b \<noteq> Inl DIFFERING_GRIDS \<and>
         times_spline a b \<noteq> Inl DIFFERING_GRIDS"
  using grid_eq_iff[OF assms(1-3)] assms(4)
  by (simp add: helperAnalyticIntegration_def hasSameGrid_def plus_spline_not_differing
      times_spline_not_differing)

theorem integration_differing_grids_witness:
  "helperAnalyticIntegration example_f example_Spline_a example_Spline_c = Inl DIFFERING_GRIDS \<and>
   plus_spline example_a example_c \<noteq> Inl DIFFERING_GRIDS \<and>
   times_spline example_a example_c \<noteq> Inl DIFFERING_GRIDS"
  using integration_differing_grids[of example_Spline_a example_Spline_c example_f example_a example_c]
  by (simp add: example_Spline_a_def example_Spline_c_def example_grid_a_def example_grid_c_def
      grid_elements_def)

text \<open>
  The break points \<open>0, 1, 2\<close> and \<open>0, 2\<close> come from two different grids with the same
  extent. The sum and the product of two such splines are returned: the sum combines
  the coefficients of the interval \<open>[0, 2]\<close> with the ones of \<open>[0, 1]\<close>, the product
  multiplies them.
\<close>

theorem plus_times_differing_grids_counterexample:
  "plus_spline example_a example_c =
     Inr \<lparr> order = 1, intervals = [0, 1, 2], coefficients = [[4, 2], [3, 4]] \<rparr> \<and>
   times_spline example_a example_c =
     Inr \<lparr> order = 1, intervals = [0, 1], coefficients = [[3, 6]] \<rparr>"
  by (simp add: plus_spline_def times_spline_def example_a_def example_c_def
      makeuniquesorted_def plus_coefficients_def add_def changearraysize_def make_array_def
      myspline_ctor_def setData_def steadilyIncreasingIntervals_def
      findOverlappingIntervals_def checkOverlap_def multiply_arrays_def upt_conv_Cons Let_def)

section \<open>The operations keep the data invariant\<close>

lemma data_invariant_default: "data_invariant (myspline_default ord)"
  by (simp add: data_invariant_def myspline_default_def steadilyIncreasingIntervals_def)

lemma data_invariant_times_scalar: "data_invariant s \<Longrightarrow> data_invariant (times_scalar s d)"
  by (simp add: data_invariant_def times_scalar_def)

lemma data_invariant_nonempty:
  "data_invariant s \<Longrightarrow> intervals s \<noteq> [] \<Longrightarrow> 2 \<le> length (intervals s)"
  by (auto simp: data_invariant_def)

lemma merged_length:
  fixes xs ys :: "'a::linorder list"
  assumes "sorted_wrt (<) xs" "2 \<le> length xs" "set xs \<subseteq> set zs"
  shows "2 \<le> length (makeuniquesorted zs)"
proof -
  have "length xs = card (set xs)"
    using assms(1) by (simp add: strict_distinct distinct_card)
  also have "\<dots> \<le> card (set (makeuniquesorted zs))"
    using assms(3) by (simp add: set_makeuniquesorted card_mono)
  also have "\<dots> \<le> length (makeuniquesorted zs)" by (rule card_length)
  finally show ?thesis using assms(2) by simp
qed

lemma merged_invariant:
  assumes "data_invariant a" "data_invariant b"
  shows "data_invariant \<lparr> order = ord,
           intervals = makeuniquesorted (intervals a @ intervals b),
           coefficients = map F [0..<length (makeuniquesorted (intervals a @ intervals b)) - 1] \<rparr>"
proof (cases "intervals a = [] \<and> intervals b = []")
  case True
  then show ?thesis
    by (simp add: data_invariant_def makeuniquesorted_def steadilyIncreasingIntervals_def)
next
  case False
  have "2 \<le> length (makeuniquesorted (intervals a @ intervals b))"
  proof (cases "intervals a = []")
    case True
    with False have "intervals b \<noteq> []" by simp
    then show ?thesis
      using merged_length[OF data_invariant_strict[OF assms(2)]
          data_invariant_nonempty[OF assms(2)], of "intervals a @ intervals b"] by simp
  next
    case False
    then show ?thesis
      using merged_length[OF data_invariant_strict[OF assms(1)]
          data_invariant_nonempty[OF assms(1)], of "intervals a @ intervals b"] by simp
  qed
  then show ?thesis
    by (simp add: data_invariant_def steadilyIncreasingIntervals_iff makeuniquesorted_strict)
qed

lemma plus_spline_invariant:
  assumes "data_invariant this" "data_invariant a"
  shows "\<exists>r. plus_spline this a = Inr r \<and> data_invariant r"
  using data_invariant_setData[OF merged_invariant[OF assms(2,1)]]
    merged_invariant[OF assms(2,1)]
  by (simp add: plus_spline_def Let_def myspline_ctor_def)

lemma plus_assign_spline_invariant:
  assumes "data_invariant this" "data_invariant a"
  shows "\<exists>r. plus_assign_spline this a = Inr r \<and> data_invariant r"
  using data_invariant_setData[OF merged_invariant[OF assms(2,1)]]
    merged_invariant[OF assms(2,1)]
  by (simp add: plus_assign_spline_def Let_def)

lemma length_foldl_update:
  "length (foldl (\<lambda>nc i. nc[h i := F i]) init xs) = length init"
  by (induction xs arbitrary: init) simp_all

lemma timesx_invariant:
  assumes "data_invariant s"
  shows "\<exists>r. timesx s = Inr r \<and> data_invariant r"
proof -
  let ?nc = "foldl (\<lambda>newcoeffs i. newcoeffs[i := timesx_array (order s + 1)
                 ((intervals s ! (i + 1) + intervals s ! i) / 2) (coefficients s ! i)])
              (map (\<lambda>i. make_array (order s + 1 + 1) 0) [0..<length (coefficients s)])
              [0..<length (intervals s) - 1]"
  have "length ?nc = length (coefficients s)"
    by (simp add: length_foldl_update)
  then have inv: "data_invariant \<lparr> order = order s + 1, intervals = intervals s, coefficients = ?nc \<rparr>"
    using assms by (simp add: data_invariant_def)
  from data_invariant_setData[OF inv] inv show ?thesis
    by (simp add: timesx_def Let_def myspline_ctor_def)
qed

lemma assign_spline_invariant:
  assumes "data_invariant a"
  shows "\<exists>r. assign_spline ord a = Inr r \<and> data_invariant r"
proof -
  let ?nc = "map (\<lambda>i. let coeffsi = coefficients a ! i
                      in foldl (\<lambda>ncoeffsi j. ncoeffsi[j := coeffsi ! j])
                           (make_array (ord + 1) 0) [0..<order a + 1])
                [0..<length (coefficients a)]"
  have inv: "data_invariant \<lparr> order = ord, intervals = intervals a, coefficients = ?nc \<rparr>"
    using assms by (simp add: data_invariant_def)
  from data_invariant_setData[OF inv] inv show ?thesis
    by (simp add: assign_spline_def Let_def)
qed

lemma invert_intervals:
  "map (\<lambda>i. - (xs ! i)) (rev [0..<length xs]) = map uminus (rev xs)"
proof -
  have "map (\<lambda>i. - (xs ! i)) (rev [0..<length xs]) = map uminus (rev (map (\<lambda>i. xs ! i) [0..<length xs]))"
    by (simp add: rev_map)
  then show ?thesis by (simp add: map_nth)
qed

lemma strict_reflect:
  fixes xs :: "'a::linordered_field list"
  shows "sorted_wrt (<) xs \<Longrightarrow> sorted_wrt (<) (map uminus (rev xs))"
  by (simp add: sorted_wrt_map sorted_wrt_rev)

lemma invert_invariant:
  assumes "data_invariant s"
  shows "\<exists>r. invert s = Inr r \<and> data_invariant r"
proof (cases "isZero s")
  case True
  then show ?thesis using assms by (simp add: invert_def)
next
  case False
  then have "intervals s \<noteq> []" by (auto simp: isZero_def split: if_splits)
  then have ne: "length (intervals s) \<ge> 1" by (cases "intervals s") simp_all
  let ?nc = "foldl (\<lambda>ncoeffs i.
                        ncoeffs[length (coefficients s) - 1 - i :=
                          map (\<lambda>j. (if j mod 2 = 0 then 1 else - 1) * (coefficients s ! i ! j))
                              [0..<order s + 1]])
                     (map (\<lambda>i. make_array (order s + 1) 0) [0..<length (coefficients s)])
                     (rev [0..<length (coefficients s)])"
  have "length ?nc = length (coefficients s)"
    by (simp add: length_foldl_update)
  then have inv: "data_invariant \<lparr> order = order s, intervals = map uminus (rev (intervals s)),
      coefficients = ?nc \<rparr>"
    using assms strict_reflect[OF data_invariant_strict[OF assms]]
    by (simp add: data_invariant_def steadilyIncreasingIntervals_iff)
  from data_invariant_setData[OF inv] inv show ?thesis
    using False ne by (simp add: invert_def Let_def myspline_ctor_def invert_intervals)
qed

lemma dx_invariant:
  assumes "data_invariant s"
  shows "\<exists>r. dx n s = Inr r \<and> data_invariant r"
proof (cases "n > order s")
  case True
  then show ?thesis by (simp add: dx_def data_invariant_default)
next
  case False
  then have n: "n \<le> order s" by simp
  have "data_invariant \<lparr> order = order s - n, intervals = intervals s,
            coefficients = map (\<lambda>ii. map (\<lambda>k. of_nat (unat (faculty (k + n) n)) * coefficients s ! ii ! (k + n))
                                 [0..<order s - n + 1]) [0..<length (coefficients s)] \<rparr>"
    using assms by (simp add: data_invariant_def)
  then show ?thesis using dx_result[OF assms n] by simp
qed

lemma ctor_invariant: "myspline_ctor ord ivs cs = Inr r \<Longrightarrow> data_invariant r"
  by (simp add: myspline_ctor_def setData_Inr_iff)

lemma times_spline_invariant: "times_spline this a = Inr r \<Longrightarrow> data_invariant r"
  by (auto simp: times_spline_def Let_def data_invariant_default
      split: sum.splits prod.splits if_splits dest: ctor_invariant)

lemma convert_invariant: "convert cast si = Inr r \<Longrightarrow> data_invariant r"
  by (auto simp: convert_def Let_def dest: ctor_invariant)

subsection \<open>The loop of \<open>restrictSupport\<close>\<close>

lemma strict_le_last:
  fixes xs :: "'a::linorder list"
  shows "sorted_wrt (<) xs \<Longrightarrow> y \<in> set xs \<Longrightarrow> y \<le> last xs"
proof (induction xs)
  case (Cons x xs)
  then show ?case by (cases "xs = []") (auto intro: less_imp_le order_trans)
qed simp

lemma strict_snoc:
  fixes xs :: "'a::linorder list"
  assumes "sorted_wrt (<) xs" "xs \<noteq> []" "last xs < x"
  shows "sorted_wrt (<) (xs @ [x])"
proof -
  have "y < x" if "y \<in> set xs" for y
    using strict_le_last[OF assms(1) that] assms(3) by simp
  then show ?thesis using assms(1) by (simp add: sorted_wrt_append)
qed

lemma restrictSupport_step_state:
  assumes st: "sorted_wrt (<) (intervals s)"
    and k: "k + 1 < length (intervals s)"
    and I: "restrictSupport_state s x0 x1 k acc"
  shows "restrictSupport_state s x0 x1 (k + 1) (restrictSupport_step s x0 x1 acc k)"
proof -
  obtain ni nc where acc: "acc = (ni, nc)" by (cases acc)
  let ?iv = "intervals s"
  have lt: "?iv ! i < ?iv ! j" if "i < j" "j < length ?iv" for i j
    using st that by (simp add: sorted_wrt_iff_nth_less)
  have k1: "?iv ! k < ?iv ! (k + 1)" using lt[of k "k + 1"] k by simp
  let ?keep = "?iv ! k \<ge> x0 \<and> ?iv ! (k + 1) \<le> x1"
  let ?close = "k + 2 \<ge> length ?iv \<or> ?iv ! (k + 2) > x1"
  from I consider
    (empty) "ni = []" "nc = []" |
    (opened) "1 \<le> k" "length ni = length nc" "nc \<noteq> []" "sorted_wrt (<) ni"
       "last ni = ?iv ! (k - 1)" "x0 \<le> ?iv ! (k - 1)" "?iv ! (k + 1) \<le> x1" |
    (closed) "length ni = length nc + 1" "nc \<noteq> []" "sorted_wrt (<) ni" "x1 < ?iv ! (k + 1)"
    using k unfolding restrictSupport_state_def acc by auto
  then show ?thesis
  proof cases
    case empty
    show ?thesis
    proof (cases ?keep)
      case False
      then show ?thesis using empty
        by (auto simp: restrictSupport_state_def restrictSupport_step_def acc)
    next
      case True
      show ?thesis
      proof (cases ?close)
        case c: True
        have "restrictSupport_step s x0 x1 acc k = ([?iv ! k, ?iv ! (k + 1)], [coefficients s ! k])"
          using True c empty by (auto simp: restrictSupport_step_def acc Let_def)
        then show ?thesis using k1 c
          by (auto simp: restrictSupport_state_def)
      next
        case c: False
        have "restrictSupport_step s x0 x1 acc k = ([?iv ! k], [coefficients s ! k])"
          using True c empty by (auto simp: restrictSupport_step_def acc Let_def)
        then show ?thesis using True c
          by (auto simp: restrictSupport_state_def)
      qed
    qed
  next
    case opened
    have km: "?iv ! (k - 1) < ?iv ! k" using lt[of "k - 1" k] opened(1) k by simp
    then have keep: ?keep using opened by simp
    have ne: "ni \<noteq> []" using opened(2,3) by auto
    have s1: "sorted_wrt (<) (ni @ [?iv ! k])"
      using strict_snoc[OF opened(4) ne] km opened(5) by simp
    show ?thesis
    proof (cases ?close)
      case c: True
      have "sorted_wrt (<) ((ni @ [?iv ! k]) @ [?iv ! (k + 1)])"
        using strict_snoc[OF s1, of "?iv ! (k + 1)"] k1 by simp
      moreover have "restrictSupport_step s x0 x1 acc k =
          ((ni @ [?iv ! k]) @ [?iv ! (k + 1)], nc @ [coefficients s ! k])"
        using keep c by (auto simp: restrictSupport_step_def acc Let_def)
      ultimately show ?thesis using c opened(2)
        by (auto simp: restrictSupport_state_def)
    next
      case c: False
      have "restrictSupport_step s x0 x1 acc k = (ni @ [?iv ! k], nc @ [coefficients s ! k])"
        using keep c by (auto simp: restrictSupport_step_def acc Let_def)
      then show ?thesis using c opened(2) s1 keep
        by (auto simp: restrictSupport_state_def)
    qed
  next
    case closed
    have "restrictSupport_step s x0 x1 acc k = (ni, nc)"
      using closed(4) by (auto simp: restrictSupport_step_def acc)
    moreover have "length ?iv \<le> k + 2 \<or> x1 < ?iv ! (k + 2)"
    proof (cases "k + 2 < length ?iv")
      case True
      then have "?iv ! (k + 1) < ?iv ! (k + 2)" using lt[of "k + 1" "k + 2"] by simp
      with closed(4) have "x1 < ?iv ! (k + 2)" by (rule less_trans)
      then show ?thesis by simp
    qed simp
    ultimately show ?thesis using closed
      by (auto simp: restrictSupport_state_def)
  qed
qed

lemma restrictSupport_loop_state:
  assumes st: "sorted_wrt (<) (intervals s)"
  shows "k \<le> length (intervals s) - 1 \<Longrightarrow>
         restrictSupport_state s x0 x1 k
           (foldl (restrictSupport_step s x0 x1) ([], []) [0..<k])"
proof (induction k)
  case 0
  then show ?case by (simp add: restrictSupport_state_def)
next
  case (Suc k)
  then have k: "k + 1 < length (intervals s)" and IH: "restrictSupport_state s x0 x1 k
           (foldl (restrictSupport_step s x0 x1) ([], []) [0..<k])" by simp_all
  show ?case
    using restrictSupport_step_state[OF st k IH] by simp
qed

lemma restrictSupport_invariant:
  assumes "data_invariant s"
  shows "\<exists>r. restrictSupport s x0 x1 = Inr r \<and> data_invariant r"
proof -
  let ?n = "length (intervals s)"
  obtain ni nc where f: "foldl (restrictSupport_step s x0 x1) ([], []) [0..<?n - 1] = (ni, nc)"
    by (cases "foldl (restrictSupport_step s x0 x1) ([], []) [0..<?n - 1]")
  have "restrictSupport_state s x0 x1 (?n - 1) (ni, nc)"
    using restrictSupport_loop_state[OF data_invariant_strict[OF assms], of "?n - 1" x0 x1] f
    by simp
  then have "(ni = [] \<and> nc = []) \<or> (length ni = length nc + 1 \<and> nc \<noteq> [] \<and> sorted_wrt (<) ni)"
    by (auto simp: restrictSupport_state_def)
  then have inv: "data_invariant \<lparr> order = order s, intervals = ni, coefficients = nc \<rparr>"
    by (cases nc) (auto simp: data_invariant_def steadilyIncreasingIntervals_iff)
  from data_invariant_setData[OF inv] inv show ?thesis
    unfolding restrictSupport_def f by (simp add: myspline_ctor_def)
qed

subsection \<open>All operations\<close>

text \<open>
  Claim C9. The data invariant: the break points increase strictly, and either there
  are no break points and no coefficient arrays, or there are at least two break points
  and one coefficient array less. From operands that satisfy it, the assignment, the
  sum, the difference, their in-place forms, the scalar operations, the derivative,
  \<open>timesx\<close>, \<open>restrictSupport\<close> and \<open>invert\<close> return a spline that satisfies it.
  The constructor, the product of two splines and \<open>convert\<close> can stop at an
  assertion; whenever they return a spline, it satisfies the invariant.
\<close>

theorem operations_preserve_data_invariant:
  fixes this a :: "'a::linordered_field myspline"
  assumes "data_invariant this" and "data_invariant a"
  shows "(\<forall>r. myspline_ctor ord ivs cs = Inr r \<longrightarrow> data_invariant r) \<and>
         data_invariant (myspline_default ord :: 'a myspline) \<and>
         (\<exists>r. assign_spline ord a = Inr r \<and> data_invariant r) \<and>
         (\<exists>r. plus_spline this a = Inr r \<and> data_invariant r) \<and>
         (\<exists>r. minus_spline this a = Inr r \<and> data_invariant r) \<and>
         (\<exists>r. plus_assign_spline this a = Inr r \<and> data_invariant r) \<and>
         (\<exists>r. minus_assign_spline this a = Inr r \<and> data_invariant r) \<and>
         data_invariant (times_scalar this d) \<and>
         data_invariant (divide_scalar this d) \<and>
         data_invariant (times_assign_scalar this d) \<and>
         data_invariant (divide_assign_scalar this d) \<and>
         data_invariant (scalar_times d this) \<and>
         (\<forall>r. times_spline this a = Inr r \<longrightarrow> data_invariant r) \<and>
         (\<exists>r. dx n this = Inr r \<and> data_invariant r) \<and>
         (\<exists>r. timesx this = Inr r \<and> data_invariant r) \<and>
         (\<exists>r. restrictSupport this x0 x1 = Inr r \<and> data_invariant r) \<and>
         (\<exists>r. invert this = Inr r \<and> data_invariant r) \<and>
         (\<forall>r. convert cast this = Inr r \<longrightarrow> data_invariant r)"
proof -
  have neg: "data_invariant (scalar_times (- 1) a)"
    using assms(2) by (simp add: scalar_times_def data_invariant_times_scalar)
  have scal: "data_invariant (times_scalar this e)" for e
    by (rule data_invariant_times_scalar[OF assms(1)])
  have 1: "\<forall>r. myspline_ctor ord ivs cs = Inr r \<longrightarrow> data_invariant r"
    using ctor_invariant by blast
  have 2: "\<forall>r. times_spline this a = Inr r \<longrightarrow> data_invariant r"
    using times_spline_invariant by blast
  have 3: "\<forall>r. convert cast this = Inr r \<longrightarrow> data_invariant r"
    using convert_invariant by blast
  have 4: "data_invariant (times_scalar this d) \<and>
         data_invariant (divide_scalar this d) \<and>
         data_invariant (times_assign_scalar this d) \<and>
         data_invariant (divide_assign_scalar this d) \<and>
         data_invariant (scalar_times d this)"
    using scal[of d] scal[of "1 / d"]
    by (simp add: divide_scalar_def scalar_times_def divide_assign_scalar_def
        times_assign_scalar_def times_scalar_def)
  have 5: "\<exists>r. minus_spline this a = Inr r \<and> data_invariant r"
    unfolding minus_spline_def by (rule plus_spline_invariant[OF assms(1) neg])
  have 6: "\<exists>r. minus_assign_spline this a = Inr r \<and> data_invariant r"
    unfolding minus_assign_spline_def by (rule plus_assign_spline_invariant[OF assms(1) neg])
  show ?thesis
    using 1 2 3 4 5 6 data_invariant_default[of ord] assign_spline_invariant[OF assms(2), of ord]
      plus_spline_invariant[OF assms] plus_assign_spline_invariant[OF assms]
      dx_invariant[OF assms(1), of n] timesx_invariant[OF assms(1)]
      restrictSupport_invariant[OF assms(1), of x0 x1] invert_invariant[OF assms(1)]
    by blast
qed

theorem operations_preserve_data_invariant_witness:
  "(\<exists>r. plus_spline example_a example_b = Inr r \<and> data_invariant r) \<and>
   (\<exists>r. minus_assign_spline example_a example_b = Inr r \<and> data_invariant r) \<and>
   data_invariant (divide_scalar example_a 2) \<and>
   (\<exists>r. dx 1 example_a = Inr r \<and> data_invariant r) \<and>
   (\<exists>r. timesx example_a = Inr r \<and> data_invariant r) \<and>
   (\<exists>r. restrictSupport example_a 1 2 = Inr r \<and> data_invariant r) \<and>
   (\<exists>r. invert example_a = Inr r \<and> data_invariant r)"
proof -
  have inv: "data_invariant example_a" "data_invariant example_b"
    by (simp_all add: example_a_def example_b_def data_invariant_def
        steadilyIncreasingIntervals_def upt_conv_Cons)
  show ?thesis
    using operations_preserve_data_invariant[OF inv, of 0 "[]" "[]" 2 1 1 2 id]
    by blast
qed

section \<open>Generating all B-splines\<close>

lemma bind_result_simps [simp]:
  "bind_result (Inl e) f = Inl e" "bind_result (Inr x) f = f x"
  by (simp_all add: bind_result_def)

lemma plus_assign_spline_order: "plus_assign_spline this a = Inr r \<Longrightarrow> order r = order this"
  by (auto simp: plus_assign_spline_def Let_def setData_Inr_iff)

lemma scalar_times_invariant: "data_invariant b \<Longrightarrow> data_invariant (scalar_times d b)"
  by (simp add: scalar_times_def data_invariant_times_scalar)

lemma generator_first_term:
  assumes "data_invariant ret" "data_invariant b1"
  shows "\<exists>r. bind_result (timesx (scalar_times p b1)) (\<lambda>t1.
              bind_result (minus_spline t1 (scalar_times x (scalar_times p b1))) (\<lambda>d1.
                plus_assign_spline ret d1)) = Inr r \<and> data_invariant r \<and> order r = order ret"
proof -
  let ?s = "scalar_times p b1"
  have s: "data_invariant ?s" by (rule scalar_times_invariant[OF assms(2)])
  obtain t1 where t1: "timesx ?s = Inr t1" "data_invariant t1"
    using timesx_invariant[OF s] by blast
  have "data_invariant (scalar_times (- 1) (scalar_times x ?s))"
    by (intro scalar_times_invariant s)
  then obtain d1 where d1: "minus_spline t1 (scalar_times x ?s) = Inr d1" "data_invariant d1"
    using plus_spline_invariant[OF t1(2)] unfolding minus_spline_def by blast
  obtain r where r: "plus_assign_spline ret d1 = Inr r" "data_invariant r"
    using plus_assign_spline_invariant[OF assms(1) d1(2)] by blast
  show ?thesis using t1 d1 r plus_assign_spline_order[OF r(1)] by simp
qed

lemma generator_second_term:
  assumes "data_invariant ret" "data_invariant b2"
  shows "\<exists>r. bind_result (timesx (scalar_times p b2)) (\<lambda>t2.
              bind_result (minus_spline (scalar_times x (scalar_times p b2)) t2) (\<lambda>d2.
                plus_assign_spline ret d2)) = Inr r \<and> data_invariant r \<and> order r = order ret"
proof -
  let ?s = "scalar_times p b2"
  have s: "data_invariant ?s" by (rule scalar_times_invariant[OF assms(2)])
  obtain t2 where t2: "timesx ?s = Inr t2" "data_invariant t2"
    using timesx_invariant[OF s] by blast
  have "data_invariant (scalar_times (- 1) t2)"
    by (intro scalar_times_invariant t2)
  then obtain d2 where d2: "minus_spline (scalar_times x ?s) t2 = Inr d2" "data_invariant d2"
    using plus_spline_invariant[OF scalar_times_invariant[OF s]] unfolding minus_spline_def
    by blast
  obtain r where r: "plus_assign_spline ret d2 = Inr r" "data_invariant r"
    using plus_assign_spline_invariant[OF assms(1) d2(2)] by blast
  show ?thesis using t2 d2 r plus_assign_spline_order[OF r(1)] by simp
qed

lemma generateBSpline_base:
  assumes "i + 1 < length (generator_knots gen)"
  shows "generateBSpline (Suc 0) gen i =
     (if generator_knots gen ! i \<ge> generator_knots gen ! (i + 1) then Inl UNDETERMINED
      else Inr \<lparr> order = 0, intervals = [generator_knots gen ! i, generator_knots gen ! (i + 1)],
                 coefficients = [[1]] \<rparr>)"
  using assms
  by (simp add: vector_at_def Spline_indicator_def myspline_ctor_def setData_def
      steadilyIncreasingIntervals_def)

lemma generateBSpline_returns:
  "1 \<le> k \<Longrightarrow> i + k < length (generator_knots gen) \<Longrightarrow>
   (k = 1 \<longrightarrow> generator_knots gen ! i < generator_knots gen ! (i + 1)) \<Longrightarrow>
   \<exists>r. generateBSpline k gen i = Inr r \<and> data_invariant r \<and> order r = k - 1"
proof (induction k arbitrary: i)
  case 0
  then show ?case by simp
next
  case (Suc k')
  let ?kn = "generator_knots gen"
  show ?case
  proof (cases k')
    case 0
    have "data_invariant \<lparr> order = 0, intervals = [?kn ! i, ?kn ! (i + 1)], coefficients = [[1]] \<rparr>"
      using Suc.prems 0 by (simp add: data_invariant_def steadilyIncreasingIntervals_def)
    then show ?thesis
      using Suc.prems 0 generateBSpline_base[of i gen] by simp
  next
    case (Suc km2)
    let ?k = "Suc (Suc km2)"
    have len: "i + ?k < length ?kn" using Suc.prems Suc by simp
    have ret0: "data_invariant (Spline_empty (?k - 1) :: 'a myspline)"
      "order (Spline_empty (?k - 1) :: 'a myspline) = ?k - 1"
      unfolding Spline_empty_def
      by (rule data_invariant_default) (simp add: myspline_default_def)
    let ?first = "if ?kn ! (i + ?k - 1) > ?kn ! i then
           (let prefac = 1 / (?kn ! (i + ?k - 1) - ?kn ! i) in
            bind_result (generateBSpline (Suc km2) gen i) (\<lambda>b1.
              let spline1 = scalar_times prefac b1 in
              bind_result (timesx spline1) (\<lambda>t1.
              bind_result (minus_spline t1 (scalar_times (?kn ! i) spline1)) (\<lambda>d1.
                plus_assign_spline (Spline_empty (?k - 1)) d1))))
         else Inr (Spline_empty (?k - 1))"
    have "\<exists>ret1. ?first = Inr ret1 \<and> data_invariant ret1 \<and> order ret1 = ?k - 1"
    proof (cases "?kn ! (i + ?k - 1) > ?kn ! i")
      case False
      then show ?thesis using ret0 by simp
    next
      case True
      have "km2 = 0 \<longrightarrow> ?kn ! i < ?kn ! (i + 1)" using True by auto
      then obtain b1 where b1: "generateBSpline (Suc km2) gen i = Inr b1" "data_invariant b1"
        using Suc.IH[of i] len Suc by auto
      show ?thesis
        using True b1(1) generator_first_term[OF ret0(1) b1(2)] ret0(2)
        by (simp add: Let_def)
    qed
    then obtain ret1 where ret1: "?first = Inr ret1" "data_invariant ret1" "order ret1 = ?k - 1"
      by blast
    let ?second = "if ?kn ! (i + ?k) > ?kn ! (i + 1) then
          (let prefac = 1 / (?kn ! (i + ?k) - ?kn ! (i + 1)) in
           bind_result (generateBSpline (Suc km2) gen (i + 1)) (\<lambda>b2.
             let spline2 = scalar_times prefac b2 in
             bind_result (timesx spline2) (\<lambda>t2.
             bind_result (minus_spline (scalar_times (?kn ! (i + ?k)) spline2) t2) (\<lambda>d2.
               plus_assign_spline ret1 d2))))
        else Inr ret1"
    have "\<exists>r. ?second = Inr r \<and> data_invariant r \<and> order r = ?k - 1"
    proof (cases "?kn ! (i + ?k) > ?kn ! (i + 1)")
      case False
      then show ?thesis using ret1 by simp
    next
      case True
      have "km2 = 0 \<longrightarrow> ?kn ! (i + 1) < ?kn ! (i + 1 + 1)" using True by auto
      then obtain b2 where b2: "generateBSpline (Suc km2) gen (i + 1) = Inr b2" "data_invariant b2"
        using Suc.IH[of "i + 1"] len Suc by auto
      show ?thesis
        using True b2(1) generator_second_term[OF ret1(2) b2(2)] ret1(3)
        by (simp add: Let_def)
    qed
    then obtain r where r: "?second = Inr r" "data_invariant r" "order r = ?k - 1" by blast
    have va: "vector_at ?kn i = Inr (?kn ! i)"
      "vector_at ?kn (i + ?k - 1) = Inr (?kn ! (i + ?k - 1))"
      "vector_at ?kn (i + 1) = Inr (?kn ! (i + 1))"
      "vector_at ?kn (i + ?k) = Inr (?kn ! (i + ?k))"
      using len by (simp_all add: vector_at_def)
    have "generateBSpline ?k gen i = Inr r"
      apply (subst generateBSpline.simps(3))
      unfolding Let_def va bind_result_simps
      unfolding ret1(1)[unfolded Let_def] bind_result_simps
      unfolding r(1)[unfolded Let_def]
      by (rule refl)
    then show ?thesis using r Suc by simp
  qed
qed

lemma generator_loop:
  assumes "\<forall>i<n. G i = Inl e \<or> (\<exists>r. G i = Inr r)"
  shows "if \<exists>i<n. G i = Inl e
         then foldl (\<lambda>ret i. bind_result ret (\<lambda>rs. bind_result (G i) (\<lambda>r. Inr (rs @ [r]))))
                (Inr []) [0..<n] = Inl e
         else \<exists>rs. foldl (\<lambda>ret i. bind_result ret (\<lambda>rs. bind_result (G i) (\<lambda>r. Inr (rs @ [r]))))
                (Inr []) [0..<n] = Inr rs \<and> length rs = n \<and> (\<forall>i<n. G i = Inr (rs ! i))"
  using assms
proof (induction n)
  case 0
  then show ?case by simp
next
  case (Suc n)
  let ?loop = "\<lambda>n. foldl (\<lambda>ret i. bind_result ret (\<lambda>rs. bind_result (G i) (\<lambda>r. Inr (rs @ [r]))))
                (Inr []) [0..<n]"
  have step: "?loop (Suc n) = bind_result (?loop n) (\<lambda>rs. bind_result (G n) (\<lambda>r. Inr (rs @ [r])))"
    by simp
  have IH: "if \<exists>i<n. G i = Inl e then ?loop n = Inl e
         else \<exists>rs. ?loop n = Inr rs \<and> length rs = n \<and> (\<forall>i<n. G i = Inr (rs ! i))"
    using Suc by simp
  show ?case
  proof (cases "\<exists>i<n. G i = Inl e")
    case True
    then have "?loop n = Inl e" using IH by simp
    then have l: "?loop (Suc n) = Inl e" unfolding step by simp
    have yes: "\<exists>i<Suc n. G i = Inl e" using True less_Suc_eq by blast
    show ?thesis by (simp only: yes if_True) (rule l)
  next
    case False
    with IH have "\<exists>rs. ?loop n = Inr rs \<and> length rs = n \<and> (\<forall>i<n. G i = Inr (rs ! i))"
      by (simp only: if_False)
    then obtain rs where rs: "?loop n = Inr rs" "length rs = n" "\<forall>i<n. G i = Inr (rs ! i)"
      by blast
    from Suc.prems have "G n = Inl e \<or> (\<exists>r. G n = Inr r)" by simp
    then show ?thesis
    proof
      assume f: "G n = Inl e"
      then have yes: "\<exists>i<Suc n. G i = Inl e" by blast
      have "?loop (Suc n) = Inl e" unfolding step using rs f by simp
      then show ?thesis by (simp only: yes if_True)
    next
      assume "\<exists>r. G n = Inr r"
      then obtain r where r: "G n = Inr r" by blast
      have no: "\<not> (\<exists>i<Suc n. G i = Inl e)"
        using False r less_Suc_eq by auto
      have "\<forall>i<Suc n. G i = Inr ((rs @ [r]) ! i)"
        using rs r by (auto simp: nth_append less_Suc_eq)
      then have ex': "\<exists>rs'. ?loop (Suc n) = Inr rs' \<and> length rs' = Suc n \<and> (\<forall>i<Suc n. G i = Inr (rs' ! i))"
        unfolding step using rs r by (intro exI[of _ "rs @ [r]"]) simp
      show ?thesis by (simp only: no if_False) (rule ex')
    qed
  qed
qed

text \<open>
  Claim C7, as the code has it, for \<open>k \<ge> 1\<close>. Generating all B-splines fails with
  \<open>UNDETERMINED\<close> exactly when the knots are fewer than \<open>k\<close>, or when \<open>k = 1\<close> and some knot
  is not below its successor. In every other case it returns one spline of order
  \<open>k - 1\<close> for each index below \<open>knotCount - k\<close>: the one \<open>generateBSpline\<close> returns there.
\<close>

theorem generateBSplines_result:
  assumes "1 \<le> k"
  shows "(generateBSplines k gen = Inl UNDETERMINED \<longleftrightarrow>
            length (generator_knots gen) < k \<or>
            (k = 1 \<and> (\<exists>i. i + 1 < length (generator_knots gen) \<and>
                         generator_knots gen ! (i + 1) \<le> generator_knots gen ! i))) \<and>
         (generateBSplines k gen \<noteq> Inl UNDETERMINED \<longrightarrow>
            (\<exists>rs. generateBSplines k gen = Inr rs \<and>
                  length rs = length (generator_knots gen) - k \<and>
                  (\<forall>i<length rs. generateBSpline k gen i = Inr (rs ! i) \<and>
                                  order (rs ! i) = k - 1)))"
proof (cases "length (generator_knots gen) < k")
  case True
  then show ?thesis by (simp add: generateBSplines_def)
next
  case False
  let ?kn = "generator_knots gen"
  let ?n = "length ?kn - k"
  let ?G = "generateBSpline k gen"
  have eq: "generateBSplines k gen =
      foldl (\<lambda>ret i. bind_result ret (\<lambda>rs. bind_result (?G i) (\<lambda>r. Inr (rs @ [r]))))
                (Inr []) [0..<?n]"
    using False by (simp add: generateBSplines_def)
  show ?thesis
  proof (cases "k = 1")
    case True
    have G: "?G i = (if ?kn ! i \<ge> ?kn ! (i + 1) then Inl UNDETERMINED
      else Inr \<lparr> order = 0, intervals = [?kn ! i, ?kn ! (i + 1)], coefficients = [[1]] \<rparr>)"
      if "i < ?n" for i
      using generateBSpline_base[of i gen] that True by simp
    then have "\<forall>i<?n. ?G i = Inl UNDETERMINED \<or> (\<exists>r. ?G i = Inr r)" by simp
    note L = generator_loop[OF this, folded eq]
    have ex: "(\<exists>i<?n. ?G i = Inl UNDETERMINED) \<longleftrightarrow>
              (\<exists>i. i + 1 < length ?kn \<and> ?kn ! (i + 1) \<le> ?kn ! i)"
    proof
      assume "\<exists>i<?n. ?G i = Inl UNDETERMINED"
      then obtain i where i: "i < ?n" "?G i = Inl UNDETERMINED" by blast
      then have "?kn ! (i + 1) \<le> ?kn ! i" using G[OF i(1)] by (simp split: if_splits)
      then show "\<exists>i. i + 1 < length ?kn \<and> ?kn ! (i + 1) \<le> ?kn ! i"
        using i(1) True by (intro exI[of _ i]) auto
    next
      assume "\<exists>i. i + 1 < length ?kn \<and> ?kn ! (i + 1) \<le> ?kn ! i"
      then obtain i where i: "i + 1 < length ?kn" "?kn ! (i + 1) \<le> ?kn ! i" by blast
      then have "i < ?n" using True by simp
      then show "\<exists>i<?n. ?G i = Inl UNDETERMINED" using G[of i] i(2) by auto
    qed
    show ?thesis
    proof (cases "\<exists>i<?n. ?G i = Inl UNDETERMINED")
      case u: True
      then have "generateBSplines k gen = Inl UNDETERMINED" using L by simp
      then show ?thesis using u ex True by simp
    next
      case u: False
      with L have "\<exists>rs. generateBSplines k gen = Inr rs \<and> length rs = ?n \<and>
        (\<forall>i<?n. ?G i = Inr (rs ! i))" by (simp only: if_False)
      then obtain rs where rs: "generateBSplines k gen = Inr rs" "length rs = ?n"
        "\<forall>i<?n. ?G i = Inr (rs ! i)" by blast
      have "order (rs ! i) = k - 1" if "i < ?n" for i
        using rs(3) that G[OF that] True by (auto split: if_splits)
      then show ?thesis using rs u ex False True by auto
    qed
  next
    case k1: False
    have G: "\<exists>r. ?G i = Inr r \<and> data_invariant r \<and> order r = k - 1" if "i < ?n" for i
      using generateBSpline_returns[OF assms, of i gen] that k1 by simp
    then have "\<forall>i<?n. ?G i = Inl UNDETERMINED \<or> (\<exists>r. ?G i = Inr r)" by blast
    note L = generator_loop[OF this, folded eq]
    have no: "\<not> (\<exists>i<?n. ?G i = Inl UNDETERMINED)" using G by fastforce
    with L have "\<exists>rs. generateBSplines k gen = Inr rs \<and> length rs = ?n \<and>
        (\<forall>i<?n. ?G i = Inr (rs ! i))" by (simp only: if_False)
    then obtain rs where rs: "generateBSplines k gen = Inr rs" "length rs = ?n"
        "\<forall>i<?n. ?G i = Inr (rs ! i)" by blast
    have "order (rs ! i) = k - 1" if "i < ?n" for i
      using rs(3) that G[OF that] by auto
    then show ?thesis using rs False k1 by auto
  qed
qed

theorem generateBSplines_result_witness:
  "generateBSplines 3 (BSplineGenerator_from_knots [0, 1 :: rat]) = Inl UNDETERMINED \<and>
   (\<exists>rs. generateBSplines 2 example_generator = Inr rs \<and> length rs = 2)"
proof -
  have k: "(1::nat) \<le> 3" "(1::nat) \<le> 2" by simp_all
  have a: "generateBSplines 3 (BSplineGenerator_from_knots [0, 1 :: rat]) = Inl UNDETERMINED"
    using generateBSplines_result[OF k(1), of "BSplineGenerator_from_knots [0, 1 :: rat]"]
    by (simp add: BSplineGenerator_from_knots_def)
  have kn: "length (generator_knots example_generator) = 4"
    by (simp add: example_generator_def BSplineGenerator_from_knots_def)
  have "generateBSplines 2 example_generator \<noteq> Inl UNDETERMINED"
    using generateBSplines_result[OF k(2), of example_generator] kn by simp
  then have "\<exists>rs. generateBSplines 2 example_generator = Inr rs \<and> length rs = 2"
    using generateBSplines_result[OF k(2), of example_generator] kn by auto
  with a show ?thesis by simp
qed

text \<open>
  On the knots \<open>0, 0, 1, 2\<close> there are at least \<open>k = 1\<close> knots, and generating all
  B-splines of order 0 fails with \<open>UNDETERMINED\<close> at the repeated knot.
\<close>

theorem generateBSplines_repeated_knot_counterexample:
  "\<not> length (generator_knots example_generator) < 1 \<and>
   generateBSplines 1 example_generator = Inl UNDETERMINED"
  by (simp add: generateBSplines_def example_generator_def BSplineGenerator_from_knots_def
      vector_at_def upt_conv_Cons)

end
